theory Spec2Isabelle
  imports Main "HOL-Library.Sublist"
begin

section \<open>Adblock content filters profile (src/core/AdblockContentFiltersProfile.cpp)\<close>

text \<open>
  A shallow embedding of the Adblock profile of Otter Browser: the rule parser
  (\<open>parseRuleLine\<close>), the character trie, the matcher (\<open>checkUrl\<close>, \<open>checkUrlSubstring\<close>,
  \<open>evaluateNodeRules\<close>, \<open>checkRuleMatch\<close>), the header scan (\<open>loadHeader\<close>) and the
  completion of an update job (\<open>handleJobFinished\<close>).

  Text is a \<open>string\<close>: a \<open>QChar\<close> is modelled by a \<open>char\<close>, read as the code point of the
  Latin-1 range (U+0000 to U+00FF). The character classes of Qt are written out on that range.
\<close>

subsection \<open>Strings of Qt\<close>

definition startsWith :: "string \<Rightarrow> string \<Rightarrow> bool" where
  "startsWith s p = prefix p s"

definition endsWith :: "string \<Rightarrow> string \<Rightarrow> bool" where
  "endsWith s p = suffix p s"

definition contains :: "string \<Rightarrow> string \<Rightarrow> bool" where
  "contains s p = sublist p s"

text \<open>\<open>QString::left(n)\<close> with a signed \<open>n\<close>: the whole string when \<open>n\<close> is negative.\<close>

definition left :: "string \<Rightarrow> int \<Rightarrow> string" where
  "left s n = (if n < 0 then s else take (nat n) s)"

text \<open>\<open>QString::indexOf\<close> of the first character satisfying a predicate, \<open>-1\<close> when none does.\<close>

fun indexOfFrom :: "(char \<Rightarrow> bool) \<Rightarrow> string \<Rightarrow> int \<Rightarrow> int" where
  "indexOfFrom P [] i = -1"
| "indexOfFrom P (c # s) i = (if P c then i else indexOfFrom P s (i + 1))"

definition indexOf :: "string \<Rightarrow> (char \<Rightarrow> bool) \<Rightarrow> int" where
  "indexOf s P = indexOfFrom P s 0"

text \<open>\<open>QChar::isDigit\<close> (category Nd) and \<open>QChar::isLetter\<close> (categories L*) on Latin-1.\<close>

definition isDigit :: "char \<Rightarrow> bool" where
  "isDigit c = (let n = (of_char c :: nat) in 48 \<le> n \<and> n \<le> 57)"

definition isLetter :: "char \<Rightarrow> bool" where
  "isLetter c = (let n = (of_char c :: nat) in
     (65 \<le> n \<and> n \<le> 90) \<or> (97 \<le> n \<and> n \<le> 122) \<or> n = 170 \<or> n = 181 \<or> n = 186 \<or>
     (192 \<le> n \<and> n \<le> 214) \<or> (216 \<le> n \<and> n \<le> 246) \<or> (248 \<le> n \<and> n \<le> 255))"

subsection \<open>Rules, requests and results\<close>

datatype RuleOption =
    ThirdPartyOption | StyleSheetOption | ImageOption | ScriptOption | ObjectOption
  | ObjectSubRequestOption | SubDocumentOption | XmlHttpRequestOption | WebSocketOption
  | PopupOption | ElementHideOption | GenericHideOption

text \<open>
  \<open>RuleOptions\<close> is a \<open>QFlags\<close> bit-set with one bit for each option: a set of options.
  \<open>NoOption\<close> is the empty set and \<open>testFlag\<close> is membership.
\<close>

type_synonym RuleOptions = "RuleOption set"

definition NoOption :: RuleOptions where
  "NoOption = {}"

definition testFlag :: "RuleOptions \<Rightarrow> RuleOption \<Rightarrow> bool" where
  "testFlag flags option = (option \<in> flags)"

datatype RuleMatch = ContainsMatch | StartMatch | EndMatch | ExactMatch

datatype ResourceType =
    OtherType | MainFrameType | SubFrameType | PopupType | StyleSheetType | ScriptType
  | ImageType | ObjectType | ObjectSubrequestType | XmlHttpRequestType | WebSocketType

datatype CosmeticFiltersMode = NoFilters | DomainOnlyFilters | AllFilters

text \<open>\<open>Node::Rule\<close>; \<open>rule\<close> is the line as it was read.\<close>

record Rule =
  rule :: string
  blockedDomains :: "string list"
  allowedDomains :: "string list"
  ruleOptions :: RuleOptions
  ruleExceptions :: RuleOptions
  ruleMatch :: RuleMatch
  ruleIsException :: bool
  needsDomainCheck :: bool

text \<open>\<open>new Node::Rule()\<close>: the default member values.\<close>

definition newRule :: Rule where
  "newRule = \<lparr>rule = [], blockedDomains = [], allowedDomains = [], ruleOptions = NoOption,
     ruleExceptions = NoOption, ruleMatch = ContainsMatch, ruleIsException = False,
     needsDomainCheck = False\<rparr>"

text \<open>\<open>Node\<close>: the character of the edge that leads to it, its children in order, its rules.\<close>

datatype Node = Node (nodeValue: char) (children: "Node list") (rules: "Rule list")

text \<open>
  \<open>Request\<close>: the fields the matcher reads. The constructor, which takes them from the two
  URLs, is declared in the header and is not part of the source file.
\<close>

record Request =
  baseHost :: string
  requestHost :: string
  requestUrl :: string
  resourceType :: ResourceType

text \<open>
  \<open>ContentFiltersManager::CheckResult\<close>; the field \<open>rule\<close> of the source is \<open>resultRule\<close> here.
  A value-initialised result (\<open>{}\<close>) is \<open>noResult\<close>.
\<close>

record CheckResult =
  resultRule :: string
  comesticFiltersMode :: CosmeticFiltersMode
  isBlocked :: bool
  isException :: bool

definition noResult :: CheckResult where
  "noResult = \<lparr>resultRule = [], comesticFiltersMode = AllFilters, isBlocked = False,
     isException = False\<rparr>"

text \<open>The static tables \<open>m_separators\<close> and \<open>m_resourceTypes\<close>.\<close>

definition m_separators :: "char list" where
  "m_separators = [CHR ''_'', CHR ''-'', CHR ''.'', CHR ''%'']"

definition m_resourceTypes :: "(ResourceType \<times> RuleOption) list" where
  "m_resourceTypes =
     [(ImageType, ImageOption), (ScriptType, ScriptOption), (StyleSheetType, StyleSheetOption),
      (ObjectType, ObjectOption), (XmlHttpRequestType, XmlHttpRequestOption),
      (SubFrameType, SubDocumentOption), (PopupType, PopupOption),
      (ObjectSubrequestType, ObjectSubRequestOption), (WebSocketType, WebSocketOption)]"

text \<open>\<open>m_domainExpression\<close> is the regular expression \<open>[:?&/=]\<close>: one character of that class.\<close>

definition m_domainExpression :: "char \<Rightarrow> bool" where
  "m_domainExpression c = (c \<in> set [CHR '':'', CHR ''?'', CHR ''&'', CHR ''/'', CHR ''=''])"

text \<open>
  Modelled from the spec: \<open>ContentFiltersManager::createSubdomainList\<close> is not part of the
  source file. The spec gives the list of the host's suffixes at its dots: for \<open>a.b.c\<close> the
  hosts \<open>a.b.c\<close>, \<open>b.c\<close> and \<open>c\<close>.
\<close>

fun createSubdomainList :: "string \<Rightarrow> string list" where
  "createSubdomainList [] = ['''']"
| "createSubdomainList (c # s) =
     (c # s) # (if c = CHR ''.'' then createSubdomainList s else tl (createSubdomainList s))"

subsection \<open>Evaluation of one rule\<close>

fun resolveDomainExceptions :: "string \<Rightarrow> string list \<Rightarrow> bool" where
  "resolveDomainExceptions url [] = False"
| "resolveDomainExceptions url (d # ruleList) =
     (if contains url d then True else resolveDomainExceptions url ruleList)"

text \<open>
  The loop of \<open>checkRuleMatch\<close> over \<open>m_resourceTypes\<close>, with \<open>isBlocked\<close> as its state \<open>blocked\<close>. Every
  step only ever clears it, so the order of the hash table does not matter.
\<close>

fun resourceTypesLoop :: "(ResourceType \<times> RuleOption) list \<Rightarrow> Rule \<Rightarrow> Request \<Rightarrow> bool \<Rightarrow> bool" where
  "resourceTypesLoop [] r request blocked = blocked"
| "resourceTypesLoop ((key, val) # table) r request blocked =
     (let supportsException = (val \<noteq> WebSocketOption \<and> val \<noteq> PopupOption) in
      resourceTypesLoop table r request
        (if testFlag (ruleOptions r) val \<or> (supportsException \<and> testFlag (ruleExceptions r) val)
         then (if resourceType request = key
               then (if blocked then testFlag (ruleOptions r) val else blocked)
               else if supportsException
               then (if blocked then testFlag (ruleExceptions r) val else blocked)
               else False)
         else blocked))"

text \<open>
  \<open>checkRuleMatch\<close> in the order of its statements. \<open>matchesUrl\<close> is the \<open>switch\<close> on
  \<open>ruleMatch\<close>: false where a case returns \<open>{}\<close>. \<open>thirdPartyStep\<close> is the statement on
  \<open>ThirdPartyOption\<close> and \<open>resourceTypeStep\<close> the one on the options of resource types, both
  with the value of \<open>isBlocked\<close> before as the argument \<open>blocked\<close> and the value after as the
  result. \<open>matchResult\<close> is the result built when \<open>isBlocked\<close> is set at the end.
\<close>

definition matchesUrl :: "RuleMatch \<Rightarrow> string \<Rightarrow> string \<Rightarrow> bool" where
  "matchesUrl m url currentRule =
     (case m of
        StartMatch \<Rightarrow> startsWith url currentRule
      | EndMatch \<Rightarrow> endsWith url currentRule
      | ExactMatch \<Rightarrow> url = currentRule
      | ContainsMatch \<Rightarrow> contains url currentRule)"

definition thirdPartyStep :: "Rule \<Rightarrow> Request \<Rightarrow> bool \<Rightarrow> bool" where
  "thirdPartyStep r request blocked =
     (if testFlag (ruleOptions r) ThirdPartyOption \<or> testFlag (ruleExceptions r) ThirdPartyOption
      then (if baseHost request = []
               \<or> baseHost request \<in> set (createSubdomainList (requestHost request))
            then testFlag (ruleExceptions r) ThirdPartyOption
            else if \<not> blockedDomains r \<noteq> [] \<and> \<not> allowedDomains r \<noteq> []
            then testFlag (ruleOptions r) ThirdPartyOption
            else blocked)
      else blocked)"

definition resourceTypeStep :: "Rule \<Rightarrow> Request \<Rightarrow> bool \<Rightarrow> bool" where
  "resourceTypeStep r request blocked =
     (if ruleOptions r \<noteq> NoOption \<or> ruleExceptions r \<noteq> NoOption
      then resourceTypesLoop m_resourceTypes r request blocked
      else if resourceType request = PopupType then False
      else blocked)"

definition matchResult :: "Rule \<Rightarrow> CheckResult" where
  "matchResult r =
     (if ruleIsException r
      then noResult\<lparr>resultRule := rule r, isBlocked := False, isException := True,
             comesticFiltersMode :=
               (if testFlag (ruleOptions r) ElementHideOption then NoFilters
                else if testFlag (ruleOptions r) GenericHideOption then DomainOnlyFilters
                else comesticFiltersMode noResult)\<rparr>
      else noResult\<lparr>resultRule := rule r, isBlocked := True\<rparr>)"

definition checkRuleMatch :: "Rule \<Rightarrow> string \<Rightarrow> Request \<Rightarrow> CheckResult" where
  "checkRuleMatch r currentRule request =
    (if \<not> matchesUrl (ruleMatch r) (requestUrl request) currentRule then noResult
     else if needsDomainCheck r
             \<and> left currentRule (indexOf currentRule m_domainExpression)
                 \<notin> set (createSubdomainList (requestHost request))
     then noResult
     else if blockedDomains r \<noteq> []
             \<and> \<not> resolveDomainExceptions (baseHost request) (blockedDomains r)
     then noResult
     else if resourceTypeStep r request
               (thirdPartyStep r request
                  (if allowedDomains r \<noteq> []
                   then \<not> resolveDomainExceptions (baseHost request) (allowedDomains r)
                   else True))
     then matchResult r
     else noResult)"

subsection \<open>The walk of the trie\<close>

text \<open>
  After every evaluation the matcher runs the same statement,
  \<open>if (currentResult.isBlocked) result = currentResult; else if (currentResult.isException)
  return currentResult;\<close>. \<open>accumulate currentResult result\<close> is its effect: \<open>Return\<close> leaves
  the function with that value, \<open>Continue\<close> goes on with the new value of \<open>result\<close>.
\<close>

datatype Flow = Return CheckResult | Continue CheckResult

definition accumulate :: "CheckResult \<Rightarrow> CheckResult \<Rightarrow> Flow" where
  "accumulate currentResult result =
     (if isBlocked currentResult then Continue currentResult
      else if isException currentResult then Return currentResult
      else Continue result)"

text \<open>\<open>evaluateNodeRules\<close>; \<open>evaluateRules\<close> is its loop, at the rules still to evaluate.\<close>

fun evaluateRules :: "Rule list \<Rightarrow> string \<Rightarrow> Request \<Rightarrow> CheckResult \<Rightarrow> CheckResult" where
  "evaluateRules [] currentRule request result = result"
| "evaluateRules (r # rs) currentRule request result =
     (case accumulate (checkRuleMatch r currentRule request) result of
        Return currentResult \<Rightarrow> currentResult
      | Continue result1 \<Rightarrow> evaluateRules rs currentRule request result1)"

definition evaluateNodeRules :: "Node \<Rightarrow> string \<Rightarrow> Request \<Rightarrow> CheckResult" where
  "evaluateNodeRules node currentRule request =
     evaluateRules (rules node) currentRule request noResult"

text \<open>The test of the \<open>^\<close> edge on the next character of the URL.\<close>

definition isSeparator :: "char \<Rightarrow> bool" where
  "isSeparator treeChar =
     (\<not> isDigit treeChar \<and> \<not> isLetter treeChar \<and> treeChar \<notin> set m_separators)"

text \<open>
  The last loop of \<open>checkUrlSubstring\<close>, entered when the slice is consumed: for each child
  with the value \<open>^\<close> it calls \<open>evaluateNodeRules(node, currentRule, request)\<close>, on \<open>node\<close>
  itself.
\<close>

fun separatorChildrenLoop :: "Node \<Rightarrow> Node list \<Rightarrow> string \<Rightarrow> Request \<Rightarrow> CheckResult \<Rightarrow> CheckResult" where
  "separatorChildrenLoop node [] currentRule request result = result"
| "separatorChildrenLoop node (child # nodes) currentRule request result =
     (if nodeValue child = CHR ''^''
      then (case accumulate (evaluateNodeRules node currentRule request) result of
              Return currentResult \<Rightarrow> currentResult
            | Continue result1 \<Rightarrow> separatorChildrenLoop node nodes currentRule request result1)
      else separatorChildrenLoop node nodes currentRule request result)"

text \<open>
  \<open>checkUrlSubstring\<close>. \<open>checkUrlSubstringFrom node s currentRule request result\<close> is the loop
  over the slice at the characters \<open>s\<close> still to read, with the current \<open>node\<close>, \<open>currentRule\<close>
  and \<open>result\<close>. \<open>childrenLoop\<close> is the loop over the children of the node (index \<open>j\<close>):
  when a child has the value of the character, the outer loop goes on from that child, and
  when no child has it, \<open>result\<close> is returned. \<open>wildcardLoop\<close> is the loop over \<open>k\<close> at a
  \<open>*\<close> child, with \<open>skipped = wildcardSubString.left(k)\<close> and the rest of the slice,
  \<open>wildcardSubString.right(wildcardSubString.length() - k)\<close>, which is never empty.
\<close>

function checkUrlSubstringFrom :: "Node \<Rightarrow> string \<Rightarrow> string \<Rightarrow> Request \<Rightarrow> CheckResult \<Rightarrow> CheckResult"
  and childrenLoop :: "Node list \<Rightarrow> char \<Rightarrow> string \<Rightarrow> string \<Rightarrow> Request \<Rightarrow> CheckResult \<Rightarrow> CheckResult"
  and wildcardLoop :: "Node \<Rightarrow> string \<Rightarrow> string \<Rightarrow> string \<Rightarrow> Request \<Rightarrow> CheckResult \<Rightarrow> Flow"
where
  "checkUrlSubstringFrom node [] currentRule request result =
     (case accumulate (evaluateNodeRules node currentRule request) result of
        Return currentResult \<Rightarrow> currentResult
      | Continue result1 \<Rightarrow>
          separatorChildrenLoop node (children node) currentRule request result1)"
| "checkUrlSubstringFrom node (treeChar # s) currentRule request result =
     (case accumulate (evaluateNodeRules node currentRule request) result of
        Return currentResult \<Rightarrow> currentResult
      | Continue result1 \<Rightarrow> childrenLoop (children node) treeChar s currentRule request result1)"
| "childrenLoop [] treeChar s currentRule request result = result"
| "childrenLoop (nextNode # nodes) treeChar s currentRule request result =
     (case (if nodeValue nextNode = CHR ''*''
            then wildcardLoop nextNode [] (treeChar # s) currentRule request result
            else Continue result) of
        Return currentResult \<Rightarrow> currentResult
      | Continue result1 \<Rightarrow>
         (case (if nodeValue nextNode = CHR ''^'' \<and> isSeparator treeChar
                then accumulate
                       (checkUrlSubstringFrom nextNode (treeChar # s) currentRule request noResult)
                       result1
                else Continue result1) of
            Return currentResult \<Rightarrow> currentResult
          | Continue result2 \<Rightarrow>
             (if nodeValue nextNode = treeChar
              then checkUrlSubstringFrom nextNode s (currentRule @ [treeChar]) request result2
              else childrenLoop nodes treeChar s currentRule request result2)))"
| "wildcardLoop nextNode skipped [] currentRule request result = Continue result"
| "wildcardLoop nextNode skipped (c # s) currentRule request result =
     (case accumulate
             (checkUrlSubstringFrom nextNode (c # s) (currentRule @ skipped) request noResult)
             result of
        Return currentResult \<Rightarrow> Return currentResult
      | Continue result1 \<Rightarrow> wildcardLoop nextNode (skipped @ [c]) s currentRule request result1)"
  by pat_completeness auto
termination
  apply (relation "inv_image (less_than <*lex*> less_than)
        (\<lambda>x. case x of
           Inl (node, s, _) \<Rightarrow> (size node, 0)
         | Inr (Inl (nodes, _)) \<Rightarrow> (size_list size nodes, 0)
         | Inr (Inr (nextNode, _, rest, _)) \<Rightarrow> (size nextNode, Suc (length rest)))")
        apply auto
  subgoal for node by (cases node) simp
  done

declare checkUrlSubstringFrom.simps [simp del] childrenLoop.simps [simp del]
  wildcardLoop.simps [simp del]

definition checkUrlSubstring :: "Node \<Rightarrow> string \<Rightarrow> string \<Rightarrow> Request \<Rightarrow> CheckResult" where
  "checkUrlSubstring node subString currentRule request =
     checkUrlSubstringFrom node subString currentRule request noResult"

text \<open>
  \<open>checkUrl\<close> on a loaded profile with the trie \<open>m_root\<close>. \<open>checkUrlFrom\<close> is its loop, at the
  slice \<open>requestUrl.right(requestUrl.length() - i)\<close> still to try.
\<close>

fun checkUrlFrom :: "Node \<Rightarrow> Request \<Rightarrow> string \<Rightarrow> CheckResult \<Rightarrow> CheckResult" where
  "checkUrlFrom m_root request [] result = result"
| "checkUrlFrom m_root request (c # s) result =
     (case accumulate (checkUrlSubstring m_root (c # s) [] request) result of
        Return currentResult \<Rightarrow> currentResult
      | Continue result1 \<Rightarrow> checkUrlFrom m_root request s result1)"

definition checkUrl :: "Node \<Rightarrow> Request \<Rightarrow> CheckResult" where
  "checkUrl m_root request = checkUrlFrom m_root request (requestUrl request) noResult"

subsection \<open>The parser\<close>

text \<open>\<open>QString::split\<close> at a character, for both behaviours on empty parts.\<close>

fun splitSkipEmptyFrom :: "char \<Rightarrow> string \<Rightarrow> string \<Rightarrow> string list" where
  "splitSkipEmptyFrom sep part [] = (if part = [] then [] else [part])"
| "splitSkipEmptyFrom sep part (c # s) =
     (if c = sep
      then (if part = [] then splitSkipEmptyFrom sep [] s else part # splitSkipEmptyFrom sep [] s)
      else splitSkipEmptyFrom sep (part @ [c]) s)"

definition splitSkipEmptyParts :: "string \<Rightarrow> char \<Rightarrow> string list" where
  "splitSkipEmptyParts s sep = splitSkipEmptyFrom sep [] s"

fun splitFrom :: "char \<Rightarrow> string \<Rightarrow> string \<Rightarrow> string list" where
  "splitFrom sep part [] = [part]"
| "splitFrom sep part (c # s) =
     (if c = sep then part # splitFrom sep [] s else splitFrom sep (part @ [c]) s)"

definition split :: "string \<Rightarrow> char \<Rightarrow> string list" where
  "split s sep = splitFrom sep [] s"

text \<open>
  \<open>QString::split\<close> at a string \<open>sep\<close> that is not empty: \<open>n\<close> counts the characters of an
  occurrence of \<open>sep\<close> that are still to skip.
\<close>

fun splitStringFrom :: "string \<Rightarrow> nat \<Rightarrow> string \<Rightarrow> string \<Rightarrow> string list" where
  "splitStringFrom sep n part [] = [part]"
| "splitStringFrom sep n part (c # s) =
     (if 0 < n then splitStringFrom sep (n - 1) part s
      else if prefix sep (c # s) then part # splitStringFrom sep (length sep - 1) [] s
      else splitStringFrom sep 0 (part @ [c]) s)"

definition splitString :: "string \<Rightarrow> string \<Rightarrow> string list" where
  "splitString s sep = splitStringFrom sep 0 [] s"

text \<open>The static table \<open>m_options\<close>.\<close>

definition m_options :: "string \<Rightarrow> RuleOption option" where
  "m_options = map_of
     [(''third-party'', ThirdPartyOption), (''stylesheet'', StyleSheetOption),
      (''image'', ImageOption), (''script'', ScriptOption), (''object'', ObjectOption),
      (''object-subrequest'', ObjectSubRequestOption),
      (''object_subrequest'', ObjectSubRequestOption), (''subdocument'', SubDocumentOption),
      (''xmlhttprequest'', XmlHttpRequestOption), (''websocket'', WebSocketOption),
      (''popup'', PopupOption), (''elemhide'', ElementHideOption),
      (''generichide'', GenericHideOption)]"

text \<open>The loop over \<open>parsedDomains\<close> of a \<open>domain=\<close> option.\<close>

fun parseDomains :: "string list \<Rightarrow> Rule \<Rightarrow> Rule" where
  "parseDomains [] definition = definition"
| "parseDomains (parsedDomain # parsedDomains) definition =
     (if startsWith parsedDomain ''~''
      then parseDomains parsedDomains
             (definition\<lparr>allowedDomains := allowedDomains definition @ [drop 1 parsedDomain]\<rparr>)
      else parseDomains parsedDomains
             (definition\<lparr>blockedDomains := blockedDomains definition @ [parsedDomain]\<rparr>))"

text \<open>
  The body of the loop over the options of a line, for the option \<open>options.at(i)\<close>. \<open>None\<close>
  is the \<open>return\<close> at an option that is neither in \<open>m_options\<close> nor starts with \<open>domain\<close>:
  the line gives no rule.
\<close>

definition parseOption :: "string \<Rightarrow> Rule \<Rightarrow> Rule option" where
  "parseOption opt definition =
     (let optionException = startsWith opt ''~'';
          optionName = (if optionException then drop 1 opt else opt)
      in case m_options optionName of
           Some option \<Rightarrow>
             if (\<not> ruleIsException definition \<or> optionException)
                \<and> (option = ElementHideOption \<or> option = GenericHideOption)
             then Some definition
             else if \<not> optionException
             then Some (definition\<lparr>ruleOptions := insert option (ruleOptions definition)\<rparr>)
             else if option \<noteq> WebSocketOption \<and> option \<noteq> PopupOption
             then Some (definition\<lparr>ruleExceptions := insert option (ruleExceptions definition)\<rparr>)
             else Some definition
         | None \<Rightarrow>
             if startsWith optionName ''domain''
             then Some (parseDomains
                          (splitSkipEmptyParts
                             (drop (nat (indexOf opt (\<lambda>c. c = CHR ''='') + 1)) opt) CHR ''|'')
                          definition)
             else None)"

fun parseOptions :: "string list \<Rightarrow> Rule \<Rightarrow> Rule option" where
  "parseOptions [] definition = Some definition"
| "parseOptions (opt # options) definition =
     (case parseOption opt definition of
        None \<Rightarrow> None
      | Some definition1 \<Rightarrow> parseOptions options definition1)"

text \<open>
  The part of \<open>parseRuleLine\<close> that reads a network rule, in the order of its statements.
  \<open>splitOptions\<close> cuts the line at the first \<open>$\<close> into the pattern and the list of options.
  \<open>stripWildcards\<close> takes one \<open>*\<close> from the end and one from the start of the pattern.
  \<open>parseAnchors\<close> creates the rule and reads \<open>@@\<close>, \<open>||\<close> and \<open>|\<close> at the start and \<open>|\<close> at
  the end: it gives the pattern that is left, and the rule.
\<close>

definition splitOptions :: "string \<Rightarrow> string \<times> string list" where
  "splitOptions raw =
     (let optionsSeparator = indexOf raw (\<lambda>c. c = CHR ''$'') in
      if 0 \<le> optionsSeparator
      then (left raw optionsSeparator,
            splitSkipEmptyParts (drop (nat (optionsSeparator + 1)) raw) CHR '','')
      else (raw, []))"

definition stripWildcards :: "string \<Rightarrow> string" where
  "stripWildcards line =
     (let line1 = (if endsWith line ''*'' then left line (int (length line) - 1) else line)
      in if startsWith line1 ''*'' then drop 1 line1 else line1)"

definition parseAnchors :: "string \<Rightarrow> string \<Rightarrow> string \<times> Rule" where
  "parseAnchors raw line =
     (let exception = startsWith line ''@@'';
          line1 = (if exception then drop 2 line else line);
          domainCheck = startsWith line1 ''||'';
          line2 = (if domainCheck then drop 2 line1 else line1);
          match1 = (if startsWith line2 ''|'' then StartMatch else ContainsMatch);
          line3 = (if startsWith line2 ''|'' then drop 1 line2 else line2);
          match2 = (if endsWith line3 ''|''
                    then (if match1 = StartMatch then ExactMatch else EndMatch)
                    else match1);
          line4 = (if endsWith line3 ''|'' then left line3 (int (length line3) - 1) else line3)
      in (line4, newRule\<lparr>rule := raw, ruleIsException := exception,
                   needsDomainCheck := domainCheck, ruleMatch := match2\<rparr>))"

text \<open>\<open>areWildcardsEnabled\<close> is the setting of \<open>ContentFiltersManager\<close>.\<close>

definition parseNetworkRule :: "bool \<Rightarrow> string \<Rightarrow> (string \<times> Rule) option" where
  "parseNetworkRule areWildcardsEnabled raw =
     (let line = stripWildcards (fst (splitOptions raw)) in
      if \<not> areWildcardsEnabled \<and> contains line ''*'' then None
      else (case parseOptions (snd (splitOptions raw)) (snd (parseAnchors raw line)) of
              None \<Rightarrow> None
            | Some definition \<Rightarrow> Some (fst (parseAnchors raw line), definition)))"

text \<open>
  The descent that stores a rule: for each character of the pattern the first child with that
  value, or else a new child, put first when its value is \<open>^\<close> and last otherwise.
  \<open>findChild\<close> is the inner loop over \<open>j\<close>.
\<close>

fun findChild :: "Node list \<Rightarrow> char \<Rightarrow> nat \<Rightarrow> nat option" where
  "findChild [] v j = None"
| "findChild (nextNode # nodes) v j =
     (if nodeValue nextNode = v then Some j else findChild nodes v (Suc j))"

text \<open>\<open>new Node()\<close> with its value set.\<close>

definition newNode :: "char \<Rightarrow> Node" where
  "newNode v = Node v [] []"

fun insertRule :: "Node \<Rightarrow> string \<Rightarrow> Rule \<Rightarrow> Node" where
  "insertRule node [] definition =
     Node (nodeValue node) (children node) (rules node @ [definition])"
| "insertRule node (v # line) definition =
     (case findChild (children node) v 0 of
        Some j \<Rightarrow>
          Node (nodeValue node)
            ((children node)[j := insertRule (children node ! j) line definition])
            (rules node)
      | None \<Rightarrow>
          (if v = CHR ''^''
           then Node (nodeValue node)
                  (insertRule (newNode v) line definition # children node) (rules node)
           else Node (nodeValue node)
                  (children node @ [insertRule (newNode v) line definition]) (rules node)))"

text \<open>
  The members that \<open>parseRuleLine\<close> writes: the trie, whose root \<open>loadRules\<close> has created, and
  the three tables of cosmetic filters. A \<open>QMultiHash\<close> is the list of its pairs, the latest
  first.
\<close>

record Filters =
  m_root :: Node
  m_cosmeticFiltersRules :: "string list"
  m_cosmeticFiltersDomainRules :: "(string \<times> string) list"
  m_cosmeticFiltersDomainExceptions :: "(string \<times> string) list"

fun insertDomains :: "string list \<Rightarrow> string \<Rightarrow> (string \<times> string) list \<Rightarrow> (string \<times> string) list" where
  "insertDomains [] selector table = table"
| "insertDomains (d # domains) selector table = insertDomains domains selector ((d, selector) # table)"

text \<open>
  \<open>parseStyleSheetRule\<close>: \<open>line\<close> is the line split at \<open>##\<close> or \<open>#@#\<close>, which it contains, so
  it has two parts at least.
\<close>

definition parseStyleSheetRule :: "string list \<Rightarrow> (string \<times> string) list \<Rightarrow> (string \<times> string) list" where
  "parseStyleSheetRule line table =
     (case line of
        domains # selector # _ \<Rightarrow> insertDomains (split domains CHR '','') selector table
      | _ \<Rightarrow> table)"

text \<open>
  \<open>parseRuleLine\<close>, with the two settings of \<open>ContentFiltersManager\<close> it reads:
  \<open>getCosmeticFiltersMode()\<close> and \<open>areWildcardsEnabled()\<close>.
\<close>

definition parseRuleLine :: "CosmeticFiltersMode \<Rightarrow> bool \<Rightarrow> string \<Rightarrow> Filters \<Rightarrow> Filters" where
  "parseRuleLine cosmeticFiltersMode areWildcardsEnabled raw profile =
    (if raw = [] \<or> indexOf raw (\<lambda>c. c = CHR ''!'') = 0 then profile
     else if startsWith raw ''##''
     then (if cosmeticFiltersMode = AllFilters
           then profile\<lparr>m_cosmeticFiltersRules := m_cosmeticFiltersRules profile @ [drop 2 raw]\<rparr>
           else profile)
     else if contains raw ''##''
     then (if cosmeticFiltersMode \<noteq> NoFilters
           then profile\<lparr>m_cosmeticFiltersDomainRules :=
                  parseStyleSheetRule (splitString raw ''##'') (m_cosmeticFiltersDomainRules profile)\<rparr>
           else profile)
     else if contains raw ''#@#''
     then (if cosmeticFiltersMode \<noteq> NoFilters
           then profile\<lparr>m_cosmeticFiltersDomainExceptions :=
                  parseStyleSheetRule (splitString raw ''#@#'')
                    (m_cosmeticFiltersDomainExceptions profile)\<rparr>
           else profile)
     else (case parseNetworkRule areWildcardsEnabled raw of
             None \<Rightarrow> profile
           | Some (line, definition) \<Rightarrow>
               profile\<lparr>m_root := insertRule (m_root profile) line definition\<rparr>))"

text \<open>The members as \<open>loadRules\<close> has them before the first line: \<open>m_root = new Node()\<close>.\<close>

definition emptyFilters :: Filters where
  "emptyFilters = \<lparr>m_root = newNode (CHR 0x00), m_cosmeticFiltersRules = [],
     m_cosmeticFiltersDomainRules = [], m_cosmeticFiltersDomainExceptions = []\<rparr>"

subsection \<open>The header scan\<close>

text \<open>\<open>QChar::isSpace\<close> on Latin-1, and \<open>QString::trimmed\<close>.\<close>

definition isSpace :: "char \<Rightarrow> bool" where
  "isSpace c = (let n = (of_char c :: nat) in
     n = 32 \<or> (9 \<le> n \<and> n \<le> 13) \<or> n = 133 \<or> n = 160)"

definition trimmed :: "string \<Rightarrow> string" where
  "trimmed s = rev (dropWhile isSpace (rev (dropWhile isSpace s)))"

text \<open>
  Case folding of a character, for \<open>Qt::CaseInsensitive\<close>: on Latin-1 the capital letters
  fold to the small ones, 32 places on.
\<close>

definition toCaseFolded :: "char \<Rightarrow> char" where
  "toCaseFolded c = (let n = (of_char c :: nat) in
     if (65 \<le> n \<and> n \<le> 90) \<or> (192 \<le> n \<and> n \<le> 214) \<or> (216 \<le> n \<and> n \<le> 222)
     then char_of (n + 32) else c)"

definition containsCaseInsensitive :: "string \<Rightarrow> string \<Rightarrow> bool" where
  "containsCaseInsensitive s p = contains (map toCaseFolded s) (map toCaseFolded p)"

text \<open>\<open>QString::remove(str)\<close>: every occurrence of \<open>str\<close> is taken out, from left to right.\<close>

fun removeFrom :: "string \<Rightarrow> nat \<Rightarrow> string \<Rightarrow> string" where
  "removeFrom str n [] = []"
| "removeFrom str n (c # s) =
     (if 0 < n then removeFrom str (n - 1) s
      else if str \<noteq> [] \<and> prefix str (c # s) then removeFrom str (length str - 1) s
      else c # removeFrom str 0 s)"

definition remove :: "string \<Rightarrow> string \<Rightarrow> string" where
  "remove s str = removeFrom str 0 s"

datatype ProfileError = NoError | ReadError | ParseError | DownloadError | ChecksumError

text \<open>\<open>HeaderInformation\<close>; a new one has no title, no error, and \<open>isEmpty\<close> set.\<close>

record HeaderInformation =
  title :: string
  errorString :: string
  error :: ProfileError
  isEmpty :: bool

definition newHeaderInformation :: HeaderInformation where
  "newHeaderInformation = \<lparr>title = [], errorString = [], error = NoError, isEmpty = True\<rparr>"

text \<open>
  The file at the path of the profile: absent, not to be opened (with the error string of the
  file), or a text whose lines \<open>QTextStream::readLine\<close> gives one after the other until
  \<open>atEnd\<close>.
\<close>

datatype File = Missing | Unreadable string | Readable "string list"

text \<open>
  The loop of the scan after the header line, at the lines the stream still holds. It gives the
  information and the lines it has left unread.
\<close>

fun loadHeaderLoop :: "string list \<Rightarrow> int \<Rightarrow> HeaderInformation \<Rightarrow> HeaderInformation \<times> string list" where
  "loadHeaderLoop [] lineNumber information = (information, [])"
| "loadHeaderLoop (l # stream) lineNumber information =
     (let line = trimmed l;
          information1 =
            (if isEmpty information \<and> line \<noteq> [] \<and> \<not> startsWith line ''!''
             then information\<lparr>isEmpty := False\<rparr> else information)
      in
      if startsWith line ''! Title: ''
      then loadHeaderLoop stream lineNumber
             (information1\<lparr>title := trimmed (remove line ''! Title: '')\<rparr>)
      else if 50 < lineNumber then (information1, stream)
      else loadHeaderLoop stream (lineNumber + 1) information1)"

text \<open>The scan of an open stream: the header line, then the loop with \<open>lineNumber(1)\<close>.\<close>

definition loadHeaderStream :: "string list \<Rightarrow> HeaderInformation \<times> string list" where
  "loadHeaderStream stream =
     (let header = (case stream of [] \<Rightarrow> [] | l # _ \<Rightarrow> l) in
      if \<not> containsCaseInsensitive header ''[Adblock''
      then (newHeaderInformation\<lparr>
              errorString := ''Failed to update content blocking profile: invalid header'',
              error := ParseError\<rparr>, drop 1 stream)
      else loadHeaderLoop (drop 1 stream) 1 newHeaderInformation)"

text \<open>The static \<open>loadHeader(path)\<close>, on the file at the path.\<close>

definition loadHeader_path :: "File \<Rightarrow> HeaderInformation" where
  "loadHeader_path file =
     (case file of
        Missing \<Rightarrow> newHeaderInformation
      | Unreadable fileError \<Rightarrow>
          newHeaderInformation\<lparr>
            errorString := ''Failed to open content blocking profile file: '' @ fileError,
            error := ReadError\<rparr>
      | Readable stream \<Rightarrow> fst (loadHeaderStream stream))"

text \<open>The number of lines the scan reads from a file of the lines \<open>stream\<close>.\<close>

definition linesRead :: "string list \<Rightarrow> nat" where
  "linesRead stream = length stream - length (snd (loadHeaderStream stream))"

subsection \<open>The profile and its header\<close>

datatype ProfileFlag = HasCustomTitleFlag | HasCustomUpdateUrlFlag

text \<open>A \<open>QUrl\<close>, as far as the profile looks at it: \<open>isEmpty\<close> and \<open>isValid\<close>.\<close>

datatype QUrl = EmptyUrl | InvalidUrl string | ValidUrl string

definition isValid :: "QUrl \<Rightarrow> bool" where
  "isValid url = (case url of ValidUrl _ \<Rightarrow> True | _ \<Rightarrow> False)"

text \<open>
  The members of the profile that are its metadata, and the job of an update in flight
  (\<open>None\<close> is \<open>nullptr\<close>). A \<open>QDateTime\<close> is the number of its day, \<open>None\<close> when it is not
  valid; a language and a category are the numbers of their enumerators.
\<close>

record Profile =
  m_dataFetchJob :: "QUrl option"
  m_name :: string
  m_title :: string
  m_updateUrl :: QUrl
  m_lastUpdate :: "int option"
  m_languages :: "nat list"
  m_category :: nat
  m_error :: ProfileError
  m_flags :: "ProfileFlag set"
  m_updateInterval :: int
  m_isEmpty :: bool
  m_wasLoaded :: bool

text \<open>
  \<open>raiseError\<close> sets the error of the profile; the message goes to the console and the signal
  \<open>profileModified\<close> to the listeners, outside the profile.
\<close>

definition raiseError :: "string \<Rightarrow> ProfileError \<Rightarrow> Profile \<Rightarrow> Profile" where
  "raiseError message e profile = profile\<lparr>m_error := e\<rparr>"

text \<open>
  \<open>update(url)\<close>: \<open>ownThread\<close> is \<open>thread() == QThread::currentThread()\<close>. The new job is
  kept as the URL it fetches.
\<close>

definition update :: "bool \<Rightarrow> QUrl \<Rightarrow> Profile \<Rightarrow> bool \<times> Profile" where
  "update ownThread url profile =
     (if m_dataFetchJob profile \<noteq> None \<or> \<not> ownThread then (False, profile)
      else
       let updateUrl = (if isValid url then url else m_updateUrl profile) in
       if \<not> isValid updateUrl
       then (if updateUrl = EmptyUrl
             then (False, raiseError
                     ''Failed to update content blocking profile, update URL is empty''
                     DownloadError profile)
             else (False, raiseError
                     ''Failed to update content blocking profile, update URL is invalid''
                     DownloadError profile))
       else (True, profile\<lparr>m_dataFetchJob := Some updateUrl\<rparr>))"

text \<open>
  The member \<open>loadHeader()\<close>: \<open>file\<close> is the file at \<open>getPath()\<close> and \<open>today\<close> the day of
  \<open>QDateTime::currentDateTimeUtc()\<close>.
\<close>

definition loadHeader :: "File \<Rightarrow> bool \<Rightarrow> int \<Rightarrow> Profile \<Rightarrow> Profile" where
  "loadHeader file ownThread today profile =
     (let information = loadHeader_path file in
      if error information \<noteq> NoError
      then raiseError (errorString information) (error information) profile
      else
       let profile1 =
             (if HasCustomTitleFlag \<notin> m_flags profile \<and> title information \<noteq> []
              then profile\<lparr>m_title := title information\<rparr> else profile);
           profile2 = profile1\<lparr>m_isEmpty := isEmpty information\<rparr>
       in
       if m_dataFetchJob profile2 = None \<and> 0 < m_updateInterval profile2
          \<and> (case m_lastUpdate profile2 of
                None \<Rightarrow> True
              | Some day \<Rightarrow> m_updateInterval profile2 < today - day)
       then snd (update ownThread EmptyUrl profile2)
       else profile2)"

subsection \<open>The end of an update job\<close>

text \<open>\<open>QString::toUtf8\<close> on Latin-1: one byte below U+0080 and two bytes from there on.\<close>

definition toUtf8 :: "string \<Rightarrow> string" where
  "toUtf8 s = concat (map (\<lambda>c. let n = (of_char c :: nat) in
                             if n < 128 then [c]
                             else [char_of (192 + n div 64), char_of (128 + n mod 64)]) s)"

text \<open>\<open>QByteArray::remove(pos, len)\<close>.\<close>

definition removeAt :: "string \<Rightarrow> nat \<Rightarrow> nat \<Rightarrow> string" where
  "removeAt s pos len = take pos s @ drop (pos + len) s"

text \<open>
  The loop of \<open>handleJobFinished\<close> over the lines after the header, with the buffer \<open>data\<close> and
  the \<open>checksum\<close> as its state.
\<close>

fun readLines :: "string list \<Rightarrow> string \<Rightarrow> string \<Rightarrow> string \<times> string" where
  "readLines [] data checksum = (data, checksum)"
| "readLines (line # stream) data checksum =
     (if line \<noteq> []
      then (if checksum = [] \<and> startsWith line ''! Checksum:''
            then readLines stream data (toUtf8 (trimmed (drop 11 line)))
            else readLines stream (data @ toUtf8 (CHR 0x0A # line)) checksum)
      else readLines stream data checksum)"

text \<open>
  \<open>handleJobFinished\<close> for a profile with a job, up to the file it writes: the error it raises,
  or the data it writes to the file of the profile. \<open>stream\<close> holds the lines of the device,
  \<open>md5Base64 data\<close> is \<open>QCryptographicHash::hash(data, QCryptographicHash::Md5).toBase64()\<close>
  and \<open>canWrite\<close> tells whether the \<open>QSaveFile\<close> opens.
\<close>

definition handleJobFinished :: "(string \<Rightarrow> string) \<Rightarrow> bool \<Rightarrow> string list \<Rightarrow> bool \<Rightarrow> ProfileError + string" where
  "handleJobFinished md5Base64 isSuccess stream canWrite =
     (if \<not> isSuccess then Inl DownloadError
      else
       let header = (case stream of [] \<Rightarrow> [] | l # _ \<Rightarrow> l) in
       if \<not> contains header ''[Adblock'' then Inl ParseError
       else
        let (data, checksum) = readLines (drop 1 stream) (toUtf8 header) [] in
        if checksum \<noteq> [] \<and> removeAt (md5Base64 data) 22 2 \<noteq> checksum then Inl ChecksumError
        else if \<not> canWrite then Inl DownloadError
        else Inr data)"

subsection \<open>Notions used in the statements\<close>

text \<open>The options that stand for a resource type, and the two that hide elements.\<close>

definition typeOptions :: "RuleOption set" where
  "typeOptions = set (map snd m_resourceTypes)"

definition hideOptions :: "RuleOption set" where
  "hideOptions = {ElementHideOption, GenericHideOption}"

text \<open>
  What the loop over the options keeps true of a rule: no hide option among the exceptions,
  and a hide option among the options only on an exception rule.
\<close>

definition hideInvariant :: "Rule \<Rightarrow> bool" where
  "hideInvariant d = (ruleExceptions d \<inter> hideOptions = {}
     \<and> (ruleOptions d \<inter> hideOptions \<noteq> {} \<longrightarrow> ruleIsException d))"

text \<open>Rules and requests of the examples.\<close>

definition plainRule :: Rule where
  "plainRule = newRule\<lparr>rule := ''ad''\<rparr>"

definition thirdPartyRule :: Rule where
  "thirdPartyRule = newRule\<lparr>rule := ''ad$third-party'', ruleOptions := {ThirdPartyOption}\<rparr>"

definition popupRequest :: Request where
  "popupRequest = \<lparr>baseHost = ''site.test'', requestHost = ''cdn.test'',
     requestUrl = ''http://cdn.test/ad'', resourceType = PopupType\<rparr>"

definition elemhideException :: Rule where
  "elemhideException = newRule\<lparr>rule := ''@@ad$elemhide,~generichide'', ruleIsException := True,
     ruleOptions := {ElementHideOption}\<rparr>"

definition easyListFile :: File where
  "easyListFile = Readable [''[Adblock Plus 2.0]'', ''! Title: EasyList'', ''||ads.example.com^'']"

definition easyListProfile :: Profile where
  "easyListProfile = \<lparr>m_dataFetchJob = None, m_name = ''easylist'', m_title = ''My list'',
     m_updateUrl = ValidUrl ''https://lists.test/easylist.txt'', m_lastUpdate = Some 100,
     m_languages = [0], m_category = 1, m_error = NoError, m_flags = {HasCustomTitleFlag},
     m_updateInterval = 7, m_isEmpty = True, m_wasLoaded = False\<rparr>"

text \<open>
  A line of the form \<open>! Title: ...\<close>, as the scan tests it, and the number of such lines.
\<close>

definition isTitleLine :: "string \<Rightarrow> bool" where
  "isTitleLine l = startsWith (trimmed l) ''! Title: ''"

definition titleLines :: "string list \<Rightarrow> nat" where
  "titleLines stream = length (filter isTitleLine stream)"

text \<open>Files of the examples: a header and fifty comment lines, then one rule, then one more.\<close>

definition commentFile :: "string list" where
  "commentFile = ''[Adblock Plus 2.0]'' # replicate 50 ''!''"

definition scannedFile :: "string list" where
  "scannedFile = commentFile @ [''ad'']"

definition longerFile :: "string list" where
  "longerFile = commentFile @ [''ad'', ''||ads.example.com^'']"

text \<open>
  A line that starts with \<open>! Checksum:\<close>, the value it gives, and whether it declares a
  checksum: whether that value is not empty.
\<close>

definition isChecksumLine :: "string \<Rightarrow> bool" where
  "isChecksumLine line = startsWith line ''! Checksum:''"

definition declaredChecksum :: "string \<Rightarrow> string" where
  "declaredChecksum line = toUtf8 (trimmed (drop 11 line))"

definition declaresChecksum :: "string \<Rightarrow> bool" where
  "declaresChecksum line = (isChecksumLine line \<and> declaredChecksum line \<noteq> [])"

text \<open>The buffer \<open>data\<close> with the lines \<open>ls\<close> appended, each after a line feed.\<close>

definition appendLines :: "string \<Rightarrow> string list \<Rightarrow> string" where
  "appendLines data ls = data @ concat (map (\<lambda>line. toUtf8 (CHR 0x0A # line)) ls)"

text \<open>
  The canonical buffer in the words of the spec: the header line followed by every remaining
  line except the lines that begin with \<open>! Checksum:\<close>.
\<close>

definition specCanonicalBuffer :: "string list \<Rightarrow> string" where
  "specCanonicalBuffer stream =
     appendLines (toUtf8 (hd stream)) (filter (\<lambda>line. \<not> isChecksumLine line) (tl stream))"

text \<open>
  The lines after the header that the code appends: before the first line that declares a
  checksum, the lines that are not empty and do not start with \<open>! Checksum:\<close>; after it, all
  the lines that are not empty. \<open>capturedChecksum\<close> is the value of that first line.
\<close>

definition keptLines :: "string list \<Rightarrow> string list" where
  "keptLines ls =
     filter (\<lambda>line. line \<noteq> [] \<and> \<not> isChecksumLine line)
       (takeWhile (\<lambda>line. \<not> declaresChecksum line) ls)
     @ filter (\<lambda>line. line \<noteq> []) (drop 1 (dropWhile (\<lambda>line. \<not> declaresChecksum line) ls))"

definition capturedChecksum :: "string list \<Rightarrow> string" where
  "capturedChecksum ls =
     (case dropWhile (\<lambda>line. \<not> declaresChecksum line) ls of
        [] \<Rightarrow> []
      | line # _ \<Rightarrow> declaredChecksum line)"

text \<open>Bodies of the examples, and a digest function that gives the same digest for all data.\<close>

definition sampleDigest :: "string \<Rightarrow> string" where
  "sampleDigest data = ''1B2M2Y8AsgTpgAmY7PhCfg==''"

definition blankLineBody :: "string list" where
  "blankLineBody = [''[Adblock Plus 2.0]'', [], ''ad'']"

definition checksumBody :: "string list" where
  "checksumBody = [''! Checksum: 1B2M2Y8AsgTpgAmY7PhCfg'', [], ''ad'']"

text \<open>
  The trie that holds one rule only: \<open>pathNode v p d\<close> is the node of value \<open>v\<close> under which
  the pattern \<open>p\<close> leads to the rule \<open>d\<close>.
\<close>

fun pathNode :: "char \<Rightarrow> string \<Rightarrow> Rule \<Rightarrow> Node" where
  "pathNode v [] d = Node v [] [d]"
| "pathNode v (c # p) d = Node v [pathNode c p d] []"

text \<open>
  How a pattern without \<open>*\<close> is matched against a slice of the URL by the walk of such a
  trie: an ordinary character of the pattern consumes the same character of the slice; a
  \<open>^\<close> is passed without consuming anything when the next character of the slice passes the
  test \<open>isSeparator\<close>, and is consumed, as any character, by a \<open>^\<close> in the slice. \<open>fires\<close>
  tells whether the rule blocks with the \<open>currentRule\<close> collected on the way.
\<close>

fun walkMatches :: "(string \<Rightarrow> bool) \<Rightarrow> string \<Rightarrow> string \<Rightarrow> string \<Rightarrow> bool" where
  "walkMatches fires [] s currentRule = fires currentRule"
| "walkMatches fires (c # p) [] currentRule = False"
| "walkMatches fires (c # p) (u # s) currentRule =
     ((c = CHR ''^'' \<and> isSeparator u \<and> walkMatches fires p (u # s) currentRule)
      \<or> (c = u \<and> walkMatches fires p s (currentRule @ [u])))"

definition blocks :: "Rule \<Rightarrow> Request \<Rightarrow> string \<Rightarrow> bool" where
  "blocks d request currentRule = isBlocked (checkRuleMatch d currentRule request)"

text \<open>
  A line that \<open>parseRuleLine\<close> reads as a network rule: not empty, no comment, no cosmetic
  rule. A rule that is no exception, matches as a substring, has no domain anchor, no
  options and no domain lists.
\<close>

definition isNetworkRuleLine :: "string \<Rightarrow> bool" where
  "isNetworkRuleLine raw =
     (raw \<noteq> [] \<and> indexOf raw (\<lambda>c. c = CHR ''!'') \<noteq> 0
      \<and> \<not> contains raw ''##'' \<and> \<not> contains raw ''#@#'')"

definition isPlainRule :: "Rule \<Rightarrow> bool" where
  "isPlainRule d =
     (\<not> ruleIsException d \<and> ruleMatch d = ContainsMatch \<and> \<not> needsDomainCheck d
      \<and> ruleOptions d = NoOption \<and> ruleExceptions d = NoOption
      \<and> blockedDomains d = [] \<and> allowedDomains d = [])"

text \<open>Requests and tries of the examples.\<close>

definition emptyUrlRequest :: Request where
  "emptyUrlRequest = \<lparr>baseHost = [], requestHost = [], requestUrl = [], resourceType = ImageType\<rparr>"

definition bannerRequest :: Request where
  "bannerRequest = \<lparr>baseHost = ''site.test'', requestHost = ''x.test'',
     requestUrl = ''http://x.test/banner/ad.gif'', resourceType = ImageType\<rparr>"

definition slashRequest :: Request where
  "slashRequest = \<lparr>baseHost = ''site.test'', requestHost = ''x.test'',
     requestUrl = ''http://x.test/a/b'', resourceType = ImageType\<rparr>"

definition adRequest :: Request where
  "adRequest = \<lparr>baseHost = ''site.test'', requestHost = ''x.test'',
     requestUrl = ''http://x.test/ad'', resourceType = ImageType\<rparr>"

definition separatorTrie :: Node where
  "separatorTrie = m_root (parseRuleLine AllFilters True ''a^b'' emptyFilters)"

definition trailingSeparatorTrie :: Node where
  "trailingSeparatorTrie = m_root (parseRuleLine AllFilters True ''ad^'' emptyFilters)"










text \<open>
  The evaluations of the walk. \<open>evaluations node currentRule request\<close> are the results of
  \<open>checkRuleMatch\<close> for the rules of a node, in their order. \<open>walkSubstring\<close>,
  \<open>walkChildren\<close> and \<open>walkWildcard\<close> list the evaluations that \<open>checkUrlSubstring\<close> and
  its two loops come to, in the order of the walk, were the walk never cut short by an
  exception; \<open>walkUrl\<close> does the same for the loop of \<open>checkUrl\<close>.
\<close>

definition evaluations :: "Node \<Rightarrow> string \<Rightarrow> Request \<Rightarrow> CheckResult list" where
  "evaluations node currentRule request =
     map (\<lambda>r. checkRuleMatch r currentRule request) (rules node)"

function walkSubstring :: "Node \<Rightarrow> string \<Rightarrow> string \<Rightarrow> Request \<Rightarrow> CheckResult list"
  and walkChildren :: "Node list \<Rightarrow> char \<Rightarrow> string \<Rightarrow> string \<Rightarrow> Request \<Rightarrow> CheckResult list"
  and walkWildcard :: "Node \<Rightarrow> string \<Rightarrow> string \<Rightarrow> string \<Rightarrow> Request \<Rightarrow> CheckResult list"
where
  "walkSubstring node [] currentRule request =
     evaluations node currentRule request
     @ concat (map (\<lambda>child. if nodeValue child = CHR ''^''
                             then evaluations node currentRule request else [])
                 (children node))"
| "walkSubstring node (treeChar # s) currentRule request =
     evaluations node currentRule request
     @ walkChildren (children node) treeChar s currentRule request"
| "walkChildren [] treeChar s currentRule request = []"
| "walkChildren (nextNode # nodes) treeChar s currentRule request =
     (if nodeValue nextNode = CHR ''*''
      then walkWildcard nextNode [] (treeChar # s) currentRule request else [])
     @ (if nodeValue nextNode = CHR ''^'' \<and> isSeparator treeChar
        then walkSubstring nextNode (treeChar # s) currentRule request else [])
     @ (if nodeValue nextNode = treeChar
        then walkSubstring nextNode s (currentRule @ [treeChar]) request
        else walkChildren nodes treeChar s currentRule request)"
| "walkWildcard nextNode skipped [] currentRule request = []"
| "walkWildcard nextNode skipped (c # s) currentRule request =
     walkSubstring nextNode (c # s) (currentRule @ skipped) request
     @ walkWildcard nextNode (skipped @ [c]) s currentRule request"
  by pat_completeness auto
termination
  apply (relation "inv_image (less_than <*lex*> less_than)
        (\<lambda>x. case x of
           Inl (node, s, _) \<Rightarrow> (size node, 0)
         | Inr (Inl (nodes, _)) \<Rightarrow> (size_list size nodes, 0)
         | Inr (Inr (nextNode, _, rest, _)) \<Rightarrow> (size nextNode, Suc (length rest)))")
        apply auto
  subgoal for node by (cases node) simp
  done

declare walkSubstring.simps [simp del] walkChildren.simps [simp del] walkWildcard.simps [simp del]

fun walkUrl :: "Node \<Rightarrow> Request \<Rightarrow> string \<Rightarrow> CheckResult list" where
  "walkUrl root request [] = []"
| "walkUrl root request (c # s) =
     walkSubstring root (c # s) [] request @ walkUrl root request s"

text \<open>
  A result is an exception when \<open>isException\<close> is set and \<open>isBlocked\<close> is not, and a block
  when \<open>isBlocked\<close> is set. \<open>resolve evaluated result\<close> combines a list of evaluations in
  the words of the spec: the first exception there is wins and ends the walk; otherwise the
  most recent block is handed on, or \<open>result\<close>, the block recorded before, when there is
  none.
\<close>

definition isExceptionResult :: "CheckResult \<Rightarrow> bool" where
  "isExceptionResult x = (isException x \<and> \<not> isBlocked x)"

definition resolve :: "CheckResult list \<Rightarrow> CheckResult \<Rightarrow> Flow" where
  "resolve evaluated result =
     (case find isExceptionResult evaluated of
        Some exception \<Rightarrow> Return exception
      | None \<Rightarrow> Continue (case find isBlocked (rev evaluated) of
                            Some block \<Rightarrow> block
                          | None \<Rightarrow> result))"

fun outcome :: "Flow \<Rightarrow> CheckResult" where
  "outcome (Return r) = r"
| "outcome (Continue r) = r"

text \<open>
  The verdict on all the evaluations of a walk: the first exception; or else the most recent
  block; or else the empty result, which lets the request pass.
\<close>

definition verdict :: "CheckResult list \<Rightarrow> CheckResult" where
  "verdict evaluated =
     (case find isExceptionResult evaluated of
        Some exception \<Rightarrow> exception
      | None \<Rightarrow> (case find isBlocked (rev evaluated) of
                   Some block \<Rightarrow> block
                 | None \<Rightarrow> noResult))"

text \<open>The trie and the requests of the examples of precedence.\<close>

definition adsTrie :: Node where
  "adsTrie = m_root (parseRuleLine AllFilters True ''@@||ads.example.com/ok^''
                       (parseRuleLine AllFilters True ''||ads.example.com^'' emptyFilters))"

definition adsRequest :: "string \<Rightarrow> Request" where
  "adsRequest url = \<lparr>baseHost = ''site.test'', requestHost = ''ads.example.com'',
     requestUrl = url, resourceType = ImageType\<rparr>"

text \<open>
  The filters that hold those two rules, for the insertion of one more rule, and a request
  whose URL contains both \<open>ad\<close> and \<open>ads\<close>.
\<close>

definition adsFilters :: Filters where
  "adsFilters = parseRuleLine AllFilters True ''@@||ads.example.com/ok^''
                  (parseRuleLine AllFilters True ''||ads.example.com^'' emptyFilters)"

definition adsPath :: Request where
  "adsPath = \<lparr>baseHost = ''site.test'', requestHost = ''x.test'',
     requestUrl = ''http://x.test/ads'', resourceType = ImageType\<rparr>"

section \<open>Properties\<close>

subsection \<open>Rules without options and popups\<close>

lemma resourceTypesLoop_no_type_bits:
  assumes "ruleOptions r \<inter> typeOptions = {}" and "ruleExceptions r \<inter> typeOptions = {}"
  shows "resourceTypesLoop m_resourceTypes r request blocked = blocked"
  using assms by (simp add: m_resourceTypes_def typeOptions_def testFlag_def)

text \<open>
  A rule that has an option which is no resource type, such as \<open>third-party\<close>, and no option
  of a resource type is evaluated for a popup as for a request of any other type: the test
  for popups is in the branch of the rules that have no option at all.
\<close>

lemma popup_with_other_options:
  assumes "ruleOptions r \<inter> typeOptions = {}" and "ruleExceptions r \<inter> typeOptions = {}"
    and "ruleOptions r \<noteq> NoOption \<or> ruleExceptions r \<noteq> NoOption"
  shows "checkRuleMatch r currentRule (request\<lparr>resourceType := PopupType\<rparr>)
          = checkRuleMatch r currentRule (request\<lparr>resourceType := OtherType\<rparr>)"
  using assms
  by (simp add: checkRuleMatch_def resourceTypeStep_def thirdPartyStep_def
      resourceTypesLoop_no_type_bits)

text \<open>
  C6, as the claim states it, fails: the rule of the line \<open>ad$third-party\<close> has no bit of a
  resource type among its options and exceptions, and it blocks the third-party popup request
  for \<open>http://cdn.test/ad\<close>.
\<close>

theorem popup_third_party_counterexample:
  "parseNetworkRule True ''ad$third-party'' = Some (''ad'', thirdPartyRule)
   \<and> ruleOptions thirdPartyRule \<inter> typeOptions = {}
   \<and> ruleExceptions thirdPartyRule \<inter> typeOptions = {}
   \<and> resourceType popupRequest = PopupType
   \<and> isBlocked (checkRuleMatch thirdPartyRule ''ad'' popupRequest)"
  by code_simp

text \<open>
  C6, amended: for every evaluated rule that has no option and no exception bit at all, if the
  resource type of the request is Popup, the evaluation returns the empty result (pass).
\<close>

theorem popup_without_options:
  assumes "ruleOptions r = NoOption" and "ruleExceptions r = NoOption"
    and "resourceType request = PopupType"
  shows "checkRuleMatch r currentRule request = noResult"
  using assms by (simp add: checkRuleMatch_def resourceTypeStep_def)

theorem popup_without_options_witness:
  "ruleOptions plainRule = NoOption \<and> ruleExceptions plainRule = NoOption
   \<and> resourceType popupRequest = PopupType
   \<and> checkRuleMatch plainRule ''ad'' popupRequest = noResult"
proof -
  have h: "ruleOptions plainRule = NoOption" "ruleExceptions plainRule = NoOption"
    "resourceType popupRequest = PopupType"
    by (simp_all add: plainRule_def newRule_def popupRequest_def)
  from popup_without_options[OF h, of "''ad''"] h show ?thesis by simp
qed

subsection \<open>The hide options in the parser\<close>

lemma parseDomains_keeps:
  "ruleIsException (parseDomains ds d) = ruleIsException d
   \<and> ruleOptions (parseDomains ds d) = ruleOptions d
   \<and> ruleExceptions (parseDomains ds d) = ruleExceptions d
   \<and> rule (parseDomains ds d) = rule d
   \<and> ruleMatch (parseDomains ds d) = ruleMatch d
   \<and> needsDomainCheck (parseDomains ds d) = needsDomainCheck d"
  by (induction ds arbitrary: d) simp_all

lemma parseOption_cases:
  assumes "parseOption opt d = Some d1"
  shows "(\<exists>ds. d1 = parseDomains ds d) \<or> d1 = d
    \<or> (\<exists>option. d1 = d\<lparr>ruleOptions := insert option (ruleOptions d)\<rparr>
          \<and> (option \<in> hideOptions \<longrightarrow> ruleIsException d))
    \<or> (\<exists>option. d1 = d\<lparr>ruleExceptions := insert option (ruleExceptions d)\<rparr>
          \<and> option \<notin> hideOptions)"
proof (cases "m_options (if startsWith opt ''~'' then drop 1 opt else opt)")
  case None
  with assms show ?thesis
    by (auto simp add: parseOption_def Let_def split: if_split_asm)
next
  case (Some option)
  with assms show ?thesis
    by (auto simp add: parseOption_def Let_def hideOptions_def split: if_split_asm)
qed

lemma parseOption_hideInvariant:
  assumes "parseOption opt d = Some d1" and "hideInvariant d"
  shows "hideInvariant d1"
  using parseOption_cases[OF assms(1)] assms(2)
  by (auto simp: hideInvariant_def parseDomains_keeps)

lemma parseOptions_hideInvariant:
  "parseOptions options d = Some d' \<Longrightarrow> hideInvariant d \<Longrightarrow> hideInvariant d'"
proof (induction options arbitrary: d)
  case Nil
  then show ?case by simp
next
  case (Cons opt options)
  from Cons.prems(1) obtain d1 where 1: "parseOption opt d = Some d1"
    and 2: "parseOptions options d1 = Some d'"
    by (auto split: option.splits)
  from 1 Cons.prems(2) have "hideInvariant d1" by (rule parseOption_hideInvariant)
  with 2 show ?case by (rule Cons.IH)
qed

lemma parseOption_keeps:
  assumes "parseOption opt d = Some d1"
  shows "ruleIsException d1 = ruleIsException d \<and> rule d1 = rule d \<and> ruleMatch d1 = ruleMatch d
     \<and> needsDomainCheck d1 = needsDomainCheck d"
  using parseOption_cases[OF assms] by (auto simp: parseDomains_keeps)

lemma parseOptions_keeps:
  "parseOptions options d = Some d' \<Longrightarrow>
     ruleIsException d' = ruleIsException d \<and> rule d' = rule d \<and> ruleMatch d' = ruleMatch d
     \<and> needsDomainCheck d' = needsDomainCheck d"
proof (induction options arbitrary: d)
  case Nil
  then show ?case by simp
next
  case (Cons opt options)
  from Cons.prems(1) obtain d1 where 1: "parseOption opt d = Some d1"
    and 2: "parseOptions options d1 = Some d'"
    by (auto split: option.splits)
  from Cons.IH[OF 2] parseOption_keeps[OF 1] show ?case by simp
qed

lemma parseNetworkRule_Some:
  assumes "parseNetworkRule areWildcardsEnabled raw = Some (line, definition)"
  shows "parseOptions (snd (splitOptions raw))
           (snd (parseAnchors raw (stripWildcards (fst (splitOptions raw))))) = Some definition
         \<and> line = fst (parseAnchors raw (stripWildcards (fst (splitOptions raw))))"
  using assms by (simp add: parseNetworkRule_def Let_def split: if_split_asm option.split_asm)

lemma parseAnchors_options:
  "ruleOptions (snd (parseAnchors raw line)) = NoOption
   \<and> ruleExceptions (snd (parseAnchors raw line)) = NoOption
   \<and> rule (snd (parseAnchors raw line)) = raw"
  by (simp add: parseAnchors_def Let_def newRule_def)

text \<open>
  C9, as the claim states it, fails where it lets a negated token through: on the rule of the
  line \<open>ad$~elemhide\<close>, which is no exception rule, the negated token is dropped as the plain
  one is, and the rule has no option and no exception bit.
\<close>

theorem negated_hide_option_counterexample:
  "parseNetworkRule True ''ad$~elemhide'' = Some (''ad'', newRule\<lparr>rule := ''ad$~elemhide''\<rparr>)
   \<and> \<not> ruleIsException (newRule\<lparr>rule := ''ad$~elemhide''\<rparr>)
   \<and> ruleOptions (newRule\<lparr>rule := ''ad$~elemhide''\<rparr>) = {}
   \<and> ruleExceptions (newRule\<lparr>rule := ''ad$~elemhide''\<rparr>) = {}"
  by code_simp

text \<open>
  C9, amended: for every line the parser turns into a rule, the ElementHide and GenericHide
  bits are never among the exceptions of the rule, and they are among its options only on an
  exception rule; when either token occurs on a rule that is no exception rule, or occurs
  negated with \<open>~\<close> on any rule, the loop over the options drops it and leaves the rule as it
  is.
\<close>

theorem hide_options_only_on_exceptions:
  "(parseNetworkRule areWildcardsEnabled raw = Some (line, definition) \<longrightarrow>
      ElementHideOption \<notin> ruleExceptions definition
    \<and> GenericHideOption \<notin> ruleExceptions definition
    \<and> (ElementHideOption \<in> ruleOptions definition \<or> GenericHideOption \<in> ruleOptions definition
         \<longrightarrow> ruleIsException definition))
   \<and> (m_options (if startsWith opt ''~'' then drop 1 opt else opt) = Some option
      \<and> option \<in> hideOptions \<and> (\<not> ruleIsException d \<or> startsWith opt ''~'')
      \<longrightarrow> parseOption opt d = Some d)"
proof (intro conjI impI)
  assume p: "parseNetworkRule areWildcardsEnabled raw = Some (line, definition)"
  have "hideInvariant (snd (parseAnchors raw (stripWildcards (fst (splitOptions raw)))))"
    by (simp add: hideInvariant_def parseAnchors_options NoOption_def)
  with parseNetworkRule_Some[OF p] have h: "hideInvariant definition"
    by (blast intro: parseOptions_hideInvariant)
  from h show "ElementHideOption \<notin> ruleExceptions definition"
    by (auto simp: hideInvariant_def hideOptions_def)
  from h show "GenericHideOption \<notin> ruleExceptions definition"
    by (auto simp: hideInvariant_def hideOptions_def)
  assume "ElementHideOption \<in> ruleOptions definition \<or> GenericHideOption \<in> ruleOptions definition"
  with h show "ruleIsException definition"
    by (auto simp: hideInvariant_def hideOptions_def)
next
  assume "m_options (if startsWith opt ''~'' then drop 1 opt else opt) = Some option
      \<and> option \<in> hideOptions \<and> (\<not> ruleIsException d \<or> startsWith opt ''~'')"
  then show "parseOption opt d = Some d"
    by (auto simp: parseOption_def Let_def hideOptions_def)
qed

theorem hide_options_only_on_exceptions_witness:
  "parseNetworkRule True ''@@ad$elemhide,~generichide'' = Some (''ad'', elemhideException)
   \<and> ElementHideOption \<in> ruleOptions elemhideException
   \<and> ruleIsException elemhideException
   \<and> GenericHideOption \<notin> ruleExceptions elemhideException
   \<and> m_options (if startsWith ''~elemhide'' ''~'' then drop 1 ''~elemhide'' else ''~elemhide'')
       = Some ElementHideOption
   \<and> ElementHideOption \<in> hideOptions
   \<and> \<not> ruleIsException plainRule
   \<and> parseOption ''~elemhide'' plainRule = Some plainRule"
proof -
  have p: "parseNetworkRule True ''@@ad$elemhide,~generichide'' = Some (''ad'', elemhideException)"
    by code_simp
  have e: "ElementHideOption \<in> ruleOptions elemhideException"
    by (simp add: elemhideException_def)
  have o: "m_options (if startsWith ''~elemhide'' ''~'' then drop 1 ''~elemhide'' else ''~elemhide'')
       = Some ElementHideOption \<and> ElementHideOption \<in> hideOptions
       \<and> (\<not> ruleIsException plainRule \<or> startsWith ''~elemhide'' ''~'')"
    by code_simp
  have n: "\<not> ruleIsException plainRule"
    by (simp add: plainRule_def newRule_def)
  from hide_options_only_on_exceptions[of True "''@@ad$elemhide,~generichide''" "''ad''"
      elemhideException "''~elemhide''" ElementHideOption plainRule] p e o n
  show ?thesis by blast
qed

subsection \<open>The frame of the header load\<close>

lemma update_frame:
  "m_name (snd (update t u p)) = m_name p \<and> m_title (snd (update t u p)) = m_title p
   \<and> m_updateUrl (snd (update t u p)) = m_updateUrl p
   \<and> m_lastUpdate (snd (update t u p)) = m_lastUpdate p
   \<and> m_languages (snd (update t u p)) = m_languages p
   \<and> m_category (snd (update t u p)) = m_category p
   \<and> m_flags (snd (update t u p)) = m_flags p
   \<and> m_updateInterval (snd (update t u p)) = m_updateInterval p
   \<and> m_isEmpty (snd (update t u p)) = m_isEmpty p
   \<and> m_wasLoaded (snd (update t u p)) = m_wasLoaded p"
  by (simp add: update_def raiseError_def Let_def)

text \<open>
  C10: for every profile whose HasCustomTitleFlag is set, \<open>loadHeader\<close> leaves the title of the
  profile as it is, whatever the file holds; when the flag is not set, the title changes only
  if the scan ends without error and yields a title that is not empty, and then to that
  title; and \<open>loadHeader\<close> changes no metadata of the profile other than the title, the
  emptiness hint and the error: the name, the update URL, the time of the last update, the
  languages, the category, the flags, the update interval and the loaded flag stay.
\<close>

theorem loadHeader_frame:
  "(HasCustomTitleFlag \<in> m_flags profile \<longrightarrow>
      m_title (loadHeader file ownThread today profile) = m_title profile)
   \<and> (HasCustomTitleFlag \<notin> m_flags profile
        \<and> m_title (loadHeader file ownThread today profile) \<noteq> m_title profile \<longrightarrow>
      title (loadHeader_path file) \<noteq> [] \<and> error (loadHeader_path file) = NoError
      \<and> m_title (loadHeader file ownThread today profile) = title (loadHeader_path file))
   \<and> m_name (loadHeader file ownThread today profile) = m_name profile
   \<and> m_updateUrl (loadHeader file ownThread today profile) = m_updateUrl profile
   \<and> m_lastUpdate (loadHeader file ownThread today profile) = m_lastUpdate profile
   \<and> m_languages (loadHeader file ownThread today profile) = m_languages profile
   \<and> m_category (loadHeader file ownThread today profile) = m_category profile
   \<and> m_flags (loadHeader file ownThread today profile) = m_flags profile
   \<and> m_updateInterval (loadHeader file ownThread today profile) = m_updateInterval profile
   \<and> m_wasLoaded (loadHeader file ownThread today profile) = m_wasLoaded profile"
  by (simp add: loadHeader_def Let_def update_frame raiseError_def)

theorem loadHeader_frame_witness:
  "HasCustomTitleFlag \<in> m_flags easyListProfile
   \<and> m_title (loadHeader easyListFile True 120 easyListProfile) = m_title easyListProfile
   \<and> HasCustomTitleFlag \<notin> m_flags (easyListProfile\<lparr>m_flags := {}\<rparr>)
   \<and> m_title (loadHeader easyListFile True 120 (easyListProfile\<lparr>m_flags := {}\<rparr>))
       \<noteq> m_title (easyListProfile\<lparr>m_flags := {}\<rparr>)
   \<and> title (loadHeader_path easyListFile) \<noteq> []
   \<and> m_title (loadHeader easyListFile True 120 (easyListProfile\<lparr>m_flags := {}\<rparr>))
       = title (loadHeader_path easyListFile)"
proof -
  have f1: "HasCustomTitleFlag \<in> m_flags easyListProfile"
    by (simp add: easyListProfile_def)
  have f2: "HasCustomTitleFlag \<notin> m_flags (easyListProfile\<lparr>m_flags := {}\<rparr>)"
    by simp
  have t: "m_title (loadHeader easyListFile True 120 (easyListProfile\<lparr>m_flags := {}\<rparr>))
            \<noteq> m_title (easyListProfile\<lparr>m_flags := {}\<rparr>)"
    by code_simp
  from loadHeader_frame[of easyListProfile easyListFile True 120] f1
  have a: "m_title (loadHeader easyListFile True 120 easyListProfile) = m_title easyListProfile"
    by blast
  from loadHeader_frame[of "easyListProfile\<lparr>m_flags := {}\<rparr>" easyListFile True 120] f2 t
  have b: "title (loadHeader_path easyListFile) \<noteq> []
     \<and> m_title (loadHeader easyListFile True 120 (easyListProfile\<lparr>m_flags := {}\<rparr>))
         = title (loadHeader_path easyListFile)"
    by blast
  from a b f1 f2 t show ?thesis by blast
qed


subsection \<open>The bound of the header scan\<close>

lemma loadHeaderLoop_Cons:
  "\<exists>i'. (isTitleLine l \<and> (\<forall>ls. loadHeaderLoop (l # ls) k i = loadHeaderLoop ls k i'))
      \<or> (\<not> isTitleLine l \<and> 50 < k \<and> (\<forall>ls. loadHeaderLoop (l # ls) k i = (i', ls)))
      \<or> (\<not> isTitleLine l \<and> \<not> 50 < k
           \<and> (\<forall>ls. loadHeaderLoop (l # ls) k i = loadHeaderLoop ls (k + 1) i'))"
proof -
  define i1 where "i1 = (if isEmpty i \<and> trimmed l \<noteq> [] \<and> \<not> startsWith (trimmed l) ''!''
                         then i\<lparr>isEmpty := False\<rparr> else i)"
  have e: "\<And>ls. loadHeaderLoop (l # ls) k i =
      (if isTitleLine l
       then loadHeaderLoop ls k (i1\<lparr>title := trimmed (remove (trimmed l) ''! Title: '')\<rparr>)
       else if 50 < k then (i1, ls) else loadHeaderLoop ls (k + 1) i1)"
    unfolding i1_def isTitleLine_def by (simp add: Let_def split del: if_split)
  show ?thesis
  proof (cases "isTitleLine l")
    case True
    then show ?thesis
      by (intro exI[of _ "i1\<lparr>title := trimmed (remove (trimmed l) ''! Title: '')\<rparr>"])
        (simp add: e del: loadHeaderLoop.simps)
  next
    case False
    then show ?thesis
      by (intro exI[of _ i1]) (auto simp add: e simp del: loadHeaderLoop.simps)
  qed
qed

lemma loadHeaderLoop_length:
  "length (snd (loadHeaderLoop ls k i)) \<le> length ls"
proof (induction ls arbitrary: k i)
  case Nil
  then show ?case by simp
next
  case (Cons l ls)
  from loadHeaderLoop_Cons[of l k i] Cons.IH show ?case
    by (auto simp: le_SucI)
qed

lemma loadHeaderLoop_bound:
  "k \<le> 51 \<Longrightarrow>
   int (length ls) - int (length (snd (loadHeaderLoop ls k i))) \<le> 52 - k + int (titleLines ls)"
proof (induction ls arbitrary: k i)
  case Nil
  then show ?case by simp
next
  case (Cons l ls)
  from loadHeaderLoop_Cons[of l k i] obtain i' where
    c: "(isTitleLine l \<and> loadHeaderLoop (l # ls) k i = loadHeaderLoop ls k i')
      \<or> (\<not> isTitleLine l \<and> 50 < k \<and> loadHeaderLoop (l # ls) k i = (i', ls))
      \<or> (\<not> isTitleLine l \<and> \<not> 50 < k
           \<and> loadHeaderLoop (l # ls) k i = loadHeaderLoop ls (k + 1) i')"
    by blast
  from c show ?case
  proof (elim disjE conjE)
    assume "isTitleLine l" and e: "loadHeaderLoop (l # ls) k i = loadHeaderLoop ls k i'"
    with Cons.IH[OF Cons.prems, of i'] show ?thesis
      by (simp add: titleLines_def)
  next
    assume "\<not> isTitleLine l" "50 < k" and e: "loadHeaderLoop (l # ls) k i = (i', ls)"
    with Cons.prems show ?thesis
      by (simp add: titleLines_def)
  next
    assume n: "\<not> isTitleLine l" "\<not> 50 < k"
      and e: "loadHeaderLoop (l # ls) k i = loadHeaderLoop ls (k + 1) i'"
    from n have "k + 1 \<le> 51" by simp
    from Cons.IH[OF this, of i'] n e show ?thesis
      by (simp add: titleLines_def)
  qed
qed

lemma linesRead_bound: "linesRead stream \<le> 52 + titleLines stream"
proof (cases stream)
  case Nil
  then show ?thesis by (simp add: linesRead_def loadHeaderStream_def)
next
  case (Cons h ls)
  show ?thesis
  proof (cases "containsCaseInsensitive h ''[Adblock''")
    case False
    with Cons show ?thesis by (simp add: linesRead_def loadHeaderStream_def)
  next
    case True
    have "int (length ls) - int (length (snd (loadHeaderLoop ls 1 newHeaderInformation)))
            \<le> 52 - 1 + int (titleLines ls)"
      by (rule loadHeaderLoop_bound) simp
    moreover have "titleLines ls \<le> titleLines stream"
      using Cons by (simp add: titleLines_def)
    ultimately show ?thesis
      using Cons True loadHeaderLoop_length[of ls 1 newHeaderInformation]
      by (simp add: linesRead_def loadHeaderStream_def)
  qed
qed

lemma loadHeaderLoop_append:
  "52 - k \<le> int (length (filter (\<lambda>l. \<not> isTitleLine l) xs)) \<Longrightarrow> k \<le> 51 \<Longrightarrow>
   loadHeaderLoop (xs @ ys) k i
     = (fst (loadHeaderLoop xs k i), snd (loadHeaderLoop xs k i) @ ys)"
proof (induction xs arbitrary: k i)
  case Nil
  then show ?case by simp
next
  case (Cons l xs)
  from loadHeaderLoop_Cons[of l k i] obtain i' where
    c: "(isTitleLine l \<and> (\<forall>ls. loadHeaderLoop (l # ls) k i = loadHeaderLoop ls k i'))
      \<or> (\<not> isTitleLine l \<and> 50 < k \<and> (\<forall>ls. loadHeaderLoop (l # ls) k i = (i', ls)))
      \<or> (\<not> isTitleLine l \<and> \<not> 50 < k
           \<and> (\<forall>ls. loadHeaderLoop (l # ls) k i = loadHeaderLoop ls (k + 1) i'))"
    by blast
  from c show ?case
  proof (elim disjE conjE)
    assume t: "isTitleLine l" and e: "\<forall>ls. loadHeaderLoop (l # ls) k i = loadHeaderLoop ls k i'"
    from t Cons.prems have "52 - k \<le> int (length (filter (\<lambda>l. \<not> isTitleLine l) xs))" by simp
    from Cons.IH[OF this Cons.prems(2), of i'] e show ?thesis by simp
  next
    assume "\<not> isTitleLine l" "50 < k" and e: "\<forall>ls. loadHeaderLoop (l # ls) k i = (i', ls)"
    then show ?thesis by simp
  next
    assume n: "\<not> isTitleLine l" "\<not> 50 < k"
      and e: "\<forall>ls. loadHeaderLoop (l # ls) k i = loadHeaderLoop ls (k + 1) i'"
    from n Cons.prems have "52 - (k + 1) \<le> int (length (filter (\<lambda>l. \<not> isTitleLine l) xs))"
      by simp
    moreover from n have "k + 1 \<le> 51" by simp
    ultimately show ?thesis using Cons.IH[of "k + 1" i'] e by simp
  qed
qed

lemma titleLines_take: "titleLines (take m xs) \<le> titleLines xs"
proof -
  have "titleLines xs = titleLines (take m xs) + titleLines (drop m xs)"
    unfolding titleLines_def by (metis append_take_drop_id filter_append length_append)
  then show ?thesis by simp
qed

lemma nonTitle_count:
  "length (filter (\<lambda>l. \<not> isTitleLine l) xs) = length xs - titleLines xs"
  using sum_length_filter_compl[of isTitleLine xs] by (simp add: titleLines_def)

text \<open>
  C8, as the claim states it, fails: two files that agree on their first 51 lines, a header
  and fifty comment lines, get different emptiness hints, because the scan reads line 52 of
  the longer one, a rule.
\<close>

theorem header_scan_line_52_counterexample:
  "take 51 scannedFile = take 51 commentFile
   \<and> isEmpty (loadHeader_path (Readable scannedFile))
       \<noteq> isEmpty (loadHeader_path (Readable commentFile))
   \<and> linesRead scannedFile = 52"
  by code_simp

text \<open>
  C8, amended: for every profile file, the header scan reads the first line and then goes on
  until it has read 51 lines that are no \<open>! Title: \<close> lines, which it does not count: it
  reads at most 52 lines and the title lines of the file, so never past line 52 of a file
  without title lines, and the title, emptiness and error it returns depend only on the
  first 52 lines and as many more as the file has title lines.
\<close>

theorem header_scan_bound:
  "linesRead stream \<le> 52 + titleLines stream
   \<and> (take (52 + titleLines stream) stream = take (52 + titleLines stream) stream' \<longrightarrow>
        loadHeader_path (Readable stream') = loadHeader_path (Readable stream)
        \<and> linesRead stream' = linesRead stream)"
proof (rule conjI)
  show "linesRead stream \<le> 52 + titleLines stream" by (rule linesRead_bound)
next
  let ?n = "52 + titleLines stream"
  have "loadHeader_path (Readable stream') = loadHeader_path (Readable stream)
        \<and> linesRead stream' = linesRead stream" if eq: "take ?n stream = take ?n stream'"
  proof (cases "length stream < ?n")
    case True
    then have "take ?n stream = stream" by simp
    with eq have s: "take ?n stream' = stream" by simp
    then have "length (take ?n stream') < ?n" using True by simp
    then have "length stream' < ?n" by (simp add: min_def split: if_split_asm)
    then have "take ?n stream' = stream'" by simp
    with s show ?thesis by simp
  next
    case False
    then obtain h xs where xs: "take ?n stream = h # xs"
      by (cases "take ?n stream") auto
    from False have "length (take ?n stream) = ?n" by simp
    with xs have len: "length xs = 51 + titleLines stream" by simp
    have s: "stream = h # xs @ drop ?n stream"
      using xs by (metis append_Cons append_take_drop_id)
    have s': "stream' = h # xs @ drop ?n stream'"
      using xs eq by (metis append_Cons append_take_drop_id)
    have "titleLines xs \<le> titleLines stream"
      using titleLines_take[of ?n stream] xs by (simp add: titleLines_def split: if_split_asm)
    with len have nt: "52 - 1 \<le> int (length (filter (\<lambda>l. \<not> isTitleLine l) xs))"
      by (simp add: nonTitle_count)
    have a: "\<And>ys. loadHeaderLoop (xs @ ys) 1 newHeaderInformation
      = (fst (loadHeaderLoop xs 1 newHeaderInformation),
         snd (loadHeaderLoop xs 1 newHeaderInformation) @ ys)"
      by (rule loadHeaderLoop_append[OF nt]) simp
    have b: "length (snd (loadHeaderLoop xs 1 newHeaderInformation)) \<le> length xs"
      by (rule loadHeaderLoop_length)
    have r: "\<And>ys. fst (loadHeaderStream (h # xs @ ys)) = fst (loadHeaderStream (h # xs))
        \<and> length (h # xs @ ys) - length (snd (loadHeaderStream (h # xs @ ys)))
            = length (h # xs) - length (snd (loadHeaderStream (h # xs)))"
      using a a[of "[]"] b by (simp add: loadHeaderStream_def)
    from r[of "drop ?n stream"] r[of "drop ?n stream'"] s s' show ?thesis
      by (simp add: loadHeader_path_def linesRead_def)
  qed
  then show "take ?n stream = take ?n stream' \<longrightarrow>
        loadHeader_path (Readable stream') = loadHeader_path (Readable stream)
        \<and> linesRead stream' = linesRead stream"
    by (rule impI)
qed

theorem header_scan_bound_witness:
  "take (52 + titleLines scannedFile) scannedFile = take (52 + titleLines scannedFile) longerFile
   \<and> loadHeader_path (Readable longerFile) = loadHeader_path (Readable scannedFile)
   \<and> linesRead longerFile = linesRead scannedFile
   \<and> linesRead scannedFile \<le> 52 + titleLines scannedFile"
proof -
  have h: "take (52 + titleLines scannedFile) scannedFile
            = take (52 + titleLines scannedFile) longerFile"
    by code_simp
  from header_scan_bound[of scannedFile longerFile] h show ?thesis by blast
qed

subsection \<open>The checksum of an update\<close>

lemma isChecksumLine_nonempty: "isChecksumLine line \<Longrightarrow> line \<noteq> []"
  by (auto simp: isChecksumLine_def startsWith_def)

lemma appendLines_Cons:
  "appendLines (data @ toUtf8 (CHR 0x0A # line)) ls = appendLines data (line # ls)"
  by (simp add: appendLines_def)

lemma readLines_declared:
  "checksum \<noteq> [] \<Longrightarrow>
   readLines ls data checksum = (appendLines data (filter (\<lambda>line. line \<noteq> []) ls), checksum)"
proof (induction ls arbitrary: data)
  case Nil
  then show ?case by (simp add: appendLines_def)
next
  case (Cons line ls)
  then show ?case
    by (simp add: appendLines_Cons)
qed

lemma readLines_undeclared:
  "readLines ls data [] = (appendLines data (keptLines ls), capturedChecksum ls)"
proof (induction ls arbitrary: data)
  case Nil
  then show ?case by (simp add: appendLines_def keptLines_def capturedChecksum_def)
next
  case (Cons line ls)
  show ?case
  proof (cases "line = []")
    case True
    then have "\<not> declaresChecksum line"
      using isChecksumLine_nonempty by (auto simp: declaresChecksum_def)
    with True Cons.IH show ?thesis
      by (simp add: keptLines_def capturedChecksum_def)
  next
    case False
    show ?thesis
    proof (cases "isChecksumLine line")
      case c: True
      show ?thesis
      proof (cases "declaredChecksum line = []")
        case True
        with c have "\<not> declaresChecksum line" by (simp add: declaresChecksum_def)
        with c True False Cons.IH show ?thesis
          by (simp add: keptLines_def capturedChecksum_def isChecksumLine_def declaredChecksum_def)
      next
        case d: False
        with c have "declaresChecksum line" by (simp add: declaresChecksum_def)
        with c d False show ?thesis
          by (simp add: keptLines_def capturedChecksum_def isChecksumLine_def
              declaredChecksum_def readLines_declared)
      qed
    next
      case n: False
      then have "\<not> declaresChecksum line" by (simp add: declaresChecksum_def)
      with n False Cons.IH[of "data @ toUtf8 (CHR 0x0A # line)"] show ?thesis
        by (simp add: keptLines_def capturedChecksum_def isChecksumLine_def appendLines_Cons)
    qed
  qed
qed

text \<open>
  C7, as the claim states it, fails: for a body with an empty line after the header the data
  written is not the header followed by every remaining line; the empty line is left out.
\<close>

theorem blank_line_counterexample:
  "contains (hd blankLineBody) ''[Adblock''
   \<and> handleJobFinished sampleDigest True blankLineBody True
       = Inr (''[Adblock Plus 2.0]'' @ [CHR 0x0A] @ ''ad'')
   \<and> handleJobFinished sampleDigest True blankLineBody True
       \<noteq> Inr (specCanonicalBuffer blankLineBody)"
  by code_simp

text \<open>
  C7, amended: on the completion of an update job with a valid header, for every response
  body, the canonical buffer consists of the header line followed by the remaining lines that
  are not empty, without the lines beginning \<open>! Checksum:\<close> up to and including the first one
  that gives a value, which is captured as the declared checksum (later such lines stay in
  the buffer); and if a checksum was declared, the update fails with ChecksumError exactly
  when the base64 MD5 of the canonical buffer with the two characters at positions 22 and 23
  removed, its two trailing padding characters, differs from the declared value.
\<close>

theorem checksum_validation:
  assumes "contains header ''[Adblock''"
  shows "handleJobFinished md5Base64 True (header # ls) canWrite =
           (if capturedChecksum ls \<noteq> []
               \<and> removeAt (md5Base64 (appendLines (toUtf8 header) (keptLines ls))) 22 2
                   \<noteq> capturedChecksum ls
            then Inl ChecksumError
            else if \<not> canWrite then Inl DownloadError
            else Inr (appendLines (toUtf8 header) (keptLines ls)))
         \<and> (length (md5Base64 (appendLines (toUtf8 header) (keptLines ls))) = 24 \<longrightarrow>
              removeAt (md5Base64 (appendLines (toUtf8 header) (keptLines ls))) 22 2
                = butlast (butlast (md5Base64 (appendLines (toUtf8 header) (keptLines ls)))))"
  using assms
  by (simp add: handleJobFinished_def readLines_undeclared removeAt_def butlast_conv_take)

theorem checksum_validation_witness:
  "contains ''[Adblock Plus 2.0]'' ''[Adblock''
   \<and> keptLines checksumBody = [''ad'']
   \<and> capturedChecksum checksumBody = ''1B2M2Y8AsgTpgAmY7PhCfg''
   \<and> handleJobFinished sampleDigest True (''[Adblock Plus 2.0]'' # checksumBody) True
       = Inr (appendLines (toUtf8 ''[Adblock Plus 2.0]'') (keptLines checksumBody))
   \<and> length (sampleDigest (appendLines (toUtf8 ''[Adblock Plus 2.0]'') (keptLines checksumBody)))
       = 24
   \<and> removeAt (sampleDigest (appendLines (toUtf8 ''[Adblock Plus 2.0]'') (keptLines checksumBody)))
        22 2 = ''1B2M2Y8AsgTpgAmY7PhCfg''"
proof -
  have h: "contains ''[Adblock Plus 2.0]'' ''[Adblock''"
    by code_simp
  have k: "keptLines checksumBody = [''ad'']"
    "capturedChecksum checksumBody = ''1B2M2Y8AsgTpgAmY7PhCfg''"
    by code_simp+
  have d: "length (sampleDigest (appendLines (toUtf8 ''[Adblock Plus 2.0]'') (keptLines checksumBody)))
             = 24"
    "butlast (butlast (sampleDigest (appendLines (toUtf8 ''[Adblock Plus 2.0]'')
        (keptLines checksumBody)))) = ''1B2M2Y8AsgTpgAmY7PhCfg''"
    by (simp_all add: sampleDigest_def)
  from checksum_validation[OF h, of sampleDigest checksumBody True] h k d
  show ?thesis by simp
qed


subsection \<open>The walk of a trie that holds one rule\<close>

lemma insertRule_newNode: "insertRule (newNode v) p d = pathNode v p d"
  by (induction p arbitrary: v) (simp_all add: newNode_def)

lemma matchResult_block:
  "\<not> ruleIsException d \<Longrightarrow> matchResult d = noResult\<lparr>resultRule := rule d, isBlocked := True\<rparr>"
  by (simp add: matchResult_def)

lemma checkRuleMatch_block:
  assumes "\<not> ruleIsException d"
  shows "checkRuleMatch d cur request = (if blocks d request cur then matchResult d else noResult)"
  using assms
  by (simp add: blocks_def checkRuleMatch_def matchResult_def noResult_def)

lemma accumulate_block:
  assumes "\<not> ruleIsException d"
  shows "accumulate (if b then matchResult d else noResult) res
           = Continue (if b then matchResult d else res)"
  using assms by (simp add: accumulate_def matchResult_def noResult_def)

lemma accumulate_matchResult:
  "\<not> ruleIsException d \<Longrightarrow> accumulate (matchResult d) res = Continue (matchResult d)"
  by (simp add: accumulate_def matchResult_def)

lemma evaluateNodeRules_single:
  assumes "\<not> ruleIsException d"
  shows "evaluateNodeRules (Node v cs [d]) cur request
           = (if blocks d request cur then matchResult d else noResult)"
  using assms
  by (simp add: evaluateNodeRules_def checkRuleMatch_block accumulate_block)

lemma evaluateNodeRules_none: "evaluateNodeRules (Node v cs []) cur request = noResult"
  by (simp add: evaluateNodeRules_def)

lemma accumulate_noResult: "accumulate noResult res = Continue res"
  by (simp add: accumulate_def noResult_def)

lemma nodeValue_pathNode: "nodeValue (pathNode v p d) = v"
  by (cases p) simp_all

lemma walk_pathNode:
  assumes "\<not> ruleIsException d" and "CHR ''*'' \<notin> set p"
  shows "checkUrlSubstringFrom (pathNode v p d) s cur request res
           = (if walkMatches (blocks d request) p s cur then matchResult d else res)"
  using assms(2)
proof (induction p arbitrary: v s cur res)
  case Nil
  show ?case
    by (cases s)
      (simp_all add: checkUrlSubstringFrom.simps childrenLoop.simps
        evaluateNodeRules_single[OF assms(1)] accumulate_block[OF assms(1)])
next
  case (Cons c p)
  then have c: "c \<noteq> CHR ''*''" and p: "CHR ''*'' \<notin> set p" by auto
  note IH = Cons.IH[OF p]
  show ?case
  proof (cases s)
    case Nil
    then show ?thesis
      by (simp add: checkUrlSubstringFrom.simps evaluateNodeRules_none accumulate_noResult
          nodeValue_pathNode)
  next
    case s: (Cons u s')
    have "checkUrlSubstringFrom (pathNode v (c # p) d) (u # s') cur request res
            = childrenLoop [pathNode c p d] u s' cur request res"
      by (simp add: checkUrlSubstringFrom.simps evaluateNodeRules_none accumulate_noResult)
    also have "\<dots> = (if walkMatches (blocks d request) (c # p) (u # s') cur
                      then matchResult d else res)"
      by (simp add: childrenLoop.simps nodeValue_pathNode c IH accumulate_noResult
          accumulate_matchResult[OF assms(1)])
    finally show ?thesis unfolding s .
  qed
qed

lemma walkMatches_plain:
  "CHR ''^'' \<notin> set p \<Longrightarrow>
   walkMatches fires p s cur = (prefix p s \<and> fires (cur @ p))"
proof (induction p arbitrary: s cur)
  case Nil
  then show ?case by simp
next
  case (Cons c p)
  then show ?case by (cases s) auto
qed


lemma checkUrlFrom_pathNode:
  assumes "\<not> ruleIsException d" and "CHR ''*'' \<notin> set p"
  shows "checkUrlFrom (pathNode v p d) request s res
           = (if \<exists>t. t \<noteq> [] \<and> suffix t s \<and> walkMatches (blocks d request) p t []
              then matchResult d else res)"
proof (induction s arbitrary: res)
  case Nil
  then show ?case by simp
next
  case (Cons c s)
  show ?case
  proof (cases "walkMatches (blocks d request) p (c # s) []")
    case True
    then have "\<exists>t. t \<noteq> [] \<and> suffix t (c # s) \<and> walkMatches (blocks d request) p t []"
      by (intro exI[of _ "c # s"]) simp
    with True show ?thesis
      by (simp add: checkUrlSubstring_def walk_pathNode[OF assms]
          accumulate_matchResult[OF assms(1)] Cons.IH del: walkMatches.simps)
  next
    case False
    then have "(\<exists>t. t \<noteq> [] \<and> suffix t (c # s) \<and> walkMatches (blocks d request) p t [])
        = (\<exists>t. t \<noteq> [] \<and> suffix t s \<and> walkMatches (blocks d request) p t [])"
      by (auto simp: suffix_Cons)
    with False show ?thesis
      by (simp add: checkUrlSubstring_def walk_pathNode[OF assms] accumulate_noResult
          Cons.IH del: walkMatches.simps)
  qed
qed

lemma sublist_iff_suffix_prefix:
  "s \<noteq> [] \<Longrightarrow> sublist p s = (\<exists>t. t \<noteq> [] \<and> suffix t s \<and> prefix p t)"
proof
  assume n: "s \<noteq> []" and "sublist p s"
  then obtain a b where s: "s = a @ p @ b" by (auto simp: sublist_def)
  show "\<exists>t. t \<noteq> [] \<and> suffix t s \<and> prefix p t"
  proof (cases "p @ b = []")
    case True
    with n s show ?thesis by (intro exI[of _ s]) simp
  next
    case False
    with s show ?thesis by (intro exI[of _ "p @ b"]) (simp add: suffix_def)
  qed
next
  assume "\<exists>t. t \<noteq> [] \<and> suffix t s \<and> prefix p t"
  then obtain t a b where "s = a @ t" "t = p @ b" by (auto simp: suffix_def prefix_def)
  then show "sublist p s" by (auto simp: sublist_def)
qed


subsection \<open>Rules without anchors and options\<close>

lemma parseNetworkRule_rule:
  assumes "parseNetworkRule w raw = Some (p, d)"
  shows "rule d = raw"
  using parseNetworkRule_Some[OF assms] parseOptions_keeps parseAnchors_options
  by metis

lemma blocks_plain:
  assumes "isPlainRule d"
  shows "blocks d request cur
           = (contains (requestUrl request) cur \<and> resourceType request \<noteq> PopupType)"
  using assms
  by (simp add: isPlainRule_def blocks_def checkRuleMatch_def matchesUrl_def thirdPartyStep_def
      resourceTypeStep_def matchResult_def noResult_def testFlag_def NoOption_def)

subsection \<open>The separator\<close>

lemma isSeparator_b: "\<not> isSeparator CHR ''b''"
  by code_simp

lemma walkMatches_separator:
  "walkMatches fires ''a^b'' t [] = (prefix ''a^b'' t \<and> fires ''a^b'')"
proof (cases t)
  case Nil
  then show ?thesis by simp
next
  case t1: (Cons u1 t1)
  show ?thesis
  proof (cases t1)
    case Nil
    with t1 show ?thesis by simp
  next
    case t2: (Cons u2 t2)
    show ?thesis
    proof (cases t2)
      case Nil
      with t1 t2 show ?thesis using isSeparator_b by auto
    next
      case (Cons u3 t3)
      with t1 t2 show ?thesis using isSeparator_b by auto
    qed
  qed
qed

lemma separatorTrie_eq: "separatorTrie = pathNode (CHR 0x00) ''a^b'' (newRule\<lparr>rule := ''a^b''\<rparr>)"
  by code_simp

lemma plain_ab: "isPlainRule (newRule\<lparr>rule := ''a^b''\<rparr>)"
  by (simp add: isPlainRule_def newRule_def)

text \<open>
  C3, as the claim states it, fails: the trie that holds the rule \<open>a^b\<close> does not block the
  request for \<open>http://x.test/a/b\<close>, whose URL contains \<open>a/b\<close>.
\<close>

theorem separator_slash_counterexample:
  "contains (requestUrl slashRequest) ''a/b''
   \<and> resourceType slashRequest \<noteq> PopupType
   \<and> \<not> isBlocked (checkUrl separatorTrie slashRequest)"
  by code_simp

text \<open>
  C3, amended: for the trie containing the single network rule with pattern \<open>a^b\<close>,
  \<open>checkUrl\<close> blocks a request exactly when its URL contains the text \<open>a^b\<close> itself and its
  resource type is not Popup, so it blocks none of the URLs \<open>a/b\<close>, \<open>a?b\<close>, \<open>a=b\<close>, \<open>a1b\<close>
  and \<open>aab\<close>; in general, in the walk of a trie that holds one non-exception rule whose
  pattern has no \<open>*\<close>, a \<open>^\<close> edge is passed without consuming a URL character when the next
  URL character is neither a letter, a digit, nor one of \<open>_ - . %\<close> (the next character of
  the pattern is then compared with that same URL character), and is passed by consuming
  the URL character \<open>^\<close>.
\<close>

theorem separator_is_zero_width:
  "(isBlocked (checkUrl separatorTrie request)
      \<longleftrightarrow> contains (requestUrl request) ''a^b'' \<and> resourceType request \<noteq> PopupType)
   \<and> (\<not> ruleIsException d \<and> CHR ''*'' \<notin> set p \<longrightarrow>
        checkUrlSubstring (pathNode v p d) s cur request
          = (if walkMatches (blocks d request) p s cur then matchResult d else noResult))"
proof (rule conjI)
  let ?d = "newRule\<lparr>rule := ''a^b''\<rparr>"
  have e: "\<not> ruleIsException ?d" using plain_ab by (simp add: isPlainRule_def)
  have n: "CHR ''*'' \<notin> set ''a^b''" by simp
  have "(\<exists>t. t \<noteq> [] \<and> suffix t (requestUrl request) \<and> walkMatches (blocks ?d request) ''a^b'' t [])
      = (contains (requestUrl request) ''a^b'' \<and> resourceType request \<noteq> PopupType)"
  proof (cases "requestUrl request = []")
    case True
    then show ?thesis by (simp add: contains_def)
  next
    case False
    from sublist_iff_suffix_prefix[OF False, of "''a^b''"] show ?thesis
      by (auto simp add: walkMatches_separator blocks_plain[OF plain_ab] contains_def
          simp del: walkMatches.simps)
  qed
  moreover have "checkUrl separatorTrie request
      = (if \<exists>t. t \<noteq> [] \<and> suffix t (requestUrl request)
                \<and> walkMatches (blocks ?d request) ''a^b'' t []
         then matchResult ?d else noResult)"
    unfolding separatorTrie_eq checkUrl_def by (rule checkUrlFrom_pathNode[OF e n])
  ultimately show "isBlocked (checkUrl separatorTrie request)
      \<longleftrightarrow> contains (requestUrl request) ''a^b'' \<and> resourceType request \<noteq> PopupType"
    by (simp add: matchResult_block[OF e] noResult_def del: walkMatches.simps)
next
  show "\<not> ruleIsException d \<and> CHR ''*'' \<notin> set p \<longrightarrow>
        checkUrlSubstring (pathNode v p d) s cur request
          = (if walkMatches (blocks d request) p s cur then matchResult d else noResult)"
    by (simp add: checkUrlSubstring_def walk_pathNode)
qed

theorem separator_is_zero_width_witness:
  "\<not> ruleIsException (newRule\<lparr>rule := ''a^/b''\<rparr>) \<and> CHR ''*'' \<notin> set ''a^/b''
   \<and> walkMatches (blocks (newRule\<lparr>rule := ''a^/b''\<rparr>) slashRequest) ''a^/b'' ''a/b'' []
   \<and> checkUrlSubstring (pathNode (CHR 0x00) ''a^/b'' (newRule\<lparr>rule := ''a^/b''\<rparr>)) ''a/b'' []
        slashRequest = matchResult (newRule\<lparr>rule := ''a^/b''\<rparr>)"
proof -
  have h: "\<not> ruleIsException (newRule\<lparr>rule := ''a^/b''\<rparr>) \<and> CHR ''*'' \<notin> set ''a^/b''"
    "walkMatches (blocks (newRule\<lparr>rule := ''a^/b''\<rparr>) slashRequest) ''a^/b'' ''a/b'' []"
    by code_simp+
  from separator_is_zero_width[of slashRequest "newRule\<lparr>rule := ''a^/b''\<rparr>" "''a^/b''"
      "CHR 0x00" "''a/b''" "[]"] h
  show ?thesis by simp
qed

subsection \<open>The separator at the end of the URL\<close>

text \<open>
  The last loop of \<open>checkUrlSubstring\<close> reads only the values of the children: the rules
  attached to a \<open>^\<close> child have no part in it.
\<close>

lemma separatorChildrenLoop_values:
  "separatorChildrenLoop node nodes cur request res
     = separatorChildrenLoop node (map (\<lambda>child. Node (nodeValue child) [] []) nodes)
         cur request res"
  by (induction nodes arbitrary: res) (simp_all split: Flow.split)

text \<open>
  C4: when the descent has consumed the slice, the rules attached to an immediate \<open>^\<close> child
  of the final node are to be evaluated, so that a rule whose pattern ends in \<open>^\<close> matches
  when the body of the pattern ends at the end of the URL. The code does not do this: with
  the rule \<open>ad^\<close> in the trie, the request for \<open>http://x.test/ad\<close> gets the empty result,
  while the same URL followed by \<open>?\<close> is blocked.
\<close>

theorem trailing_separator_at_end_of_url:
  "checkUrl trailingSeparatorTrie adRequest = noResult
   \<and> isBlocked (checkUrl trailingSeparatorTrie
        (adRequest\<lparr>requestUrl := ''http://x.test/ad?''\<rparr>))"
  by code_simp


subsection \<open>The third-party option\<close>












subsection \<open>Exception before block before pass\<close>

lemma find_snoc:
  "find P (xs @ [x]) = (case find P xs of Some y \<Rightarrow> Some y | None \<Rightarrow> if P x then Some x else None)"
  by (induction xs) simp_all

lemma resolve_Nil: "resolve [] res = Continue res"
  by (simp add: resolve_def)

lemma resolve_Cons:
  "resolve (x # xs) res
     = (case accumulate x res of Return e \<Rightarrow> Return e | Continue r \<Rightarrow> resolve xs r)"
  by (auto simp: resolve_def accumulate_def isExceptionResult_def find_snoc
      split: option.splits)

lemma resolve_append:
  "resolve (xs @ ys) res
     = (case resolve xs res of Return e \<Rightarrow> Return e | Continue r \<Rightarrow> resolve ys r)"
  by (induction xs arbitrary: res) (simp_all add: resolve_Nil resolve_Cons split: Flow.split)

lemma accumulate_outcome:
  "accumulate (outcome (resolve W noResult)) res = resolve W res"
proof (cases "find isExceptionResult W")
  case (Some e)
  then have "isExceptionResult e" by (auto simp: find_Some_iff)
  with Some show ?thesis
    by (simp add: resolve_def accumulate_def isExceptionResult_def)
next
  case None
  show ?thesis
  proof (cases "find isBlocked (rev W)")
    case n: None
    with None show ?thesis
      by (simp add: resolve_def accumulate_def noResult_def)
  next
    case (Some b)
    then have "isBlocked b" by (auto simp: find_Some_iff)
    with Some None show ?thesis
      by (simp add: resolve_def accumulate_def)
  qed
qed

lemma evaluateRules_resolve:
  "evaluateRules rs cur request res
     = outcome (resolve (map (\<lambda>r. checkRuleMatch r cur request) rs) res)"
  by (induction rs arbitrary: res) (simp_all add: resolve_Nil resolve_Cons split: Flow.split)

lemma accumulate_evaluateNodeRules:
  "accumulate (evaluateNodeRules node cur request) res = resolve (evaluations node cur request) res"
  by (simp add: evaluateNodeRules_def evaluations_def evaluateRules_resolve accumulate_outcome)

lemma separatorChildrenLoop_resolve:
  "separatorChildrenLoop node nodes cur request res
     = outcome (resolve (concat (map (\<lambda>child. if nodeValue child = CHR ''^''
                             then evaluations node cur request else []) nodes)) res)"
  by (induction nodes arbitrary: res)
    (simp_all add: resolve_Nil resolve_append accumulate_evaluateNodeRules split: Flow.split)

lemma walk_resolve:
  "checkUrlSubstringFrom node s cur request res
     = outcome (resolve (walkSubstring node s cur request) res)"
  "childrenLoop nodes treeChar s cur request res
     = outcome (resolve (walkChildren nodes treeChar s cur request) res)"
  "wildcardLoop nextNode skipped rest cur request res
     = resolve (walkWildcard nextNode skipped rest cur request) res"
proof (induction node s cur request res and nodes treeChar s cur request res
    and nextNode skipped rest cur request res
    rule: checkUrlSubstringFrom_childrenLoop_wildcardLoop.induct)
  case (1 node currentRule request result)
  show ?case
    by (simp add: checkUrlSubstringFrom.simps walkSubstring.simps resolve_append
        accumulate_evaluateNodeRules separatorChildrenLoop_resolve split: Flow.split)
next
  case (2 node treeChar s currentRule request result)
  then show ?case
    by (simp add: checkUrlSubstringFrom.simps walkSubstring.simps resolve_append
        accumulate_evaluateNodeRules split: Flow.split)
next
  case (3 treeChar s currentRule request result)
  show ?case by (simp add: childrenLoop.simps walkChildren.simps resolve_Nil)
next
  case (4 nextNode nodes treeChar s currentRule request result)
  define A where "A = (if nodeValue nextNode = CHR ''*''
      then walkWildcard nextNode [] (treeChar # s) currentRule request else [])"
  define B where "B = (if nodeValue nextNode = CHR ''^'' \<and> isSeparator treeChar
        then walkSubstring nextNode (treeChar # s) currentRule request else [])"
  define C where "C = (if nodeValue nextNode = treeChar
        then walkSubstring nextNode s (currentRule @ [treeChar]) request
        else walkChildren nodes treeChar s currentRule request)"
  let ?a = "if nodeValue nextNode = CHR ''*''
            then wildcardLoop nextNode [] (treeChar # s) currentRule request result
            else Continue result"
  have w: "walkChildren (nextNode # nodes) treeChar s currentRule request = A @ B @ C"
    by (simp add: walkChildren.simps A_def B_def C_def)
  have a: "?a = resolve A result"
    using "4.IH"(1) by (simp add: A_def resolve_Nil)
  show ?case
  proof (cases "resolve A result")
    case (Return e)
    with a show ?thesis
      by (simp add: childrenLoop.simps w resolve_append)
  next
    case x2: (Continue x2)
    let ?b = "if nodeValue nextNode = CHR ''^'' \<and> isSeparator treeChar
              then accumulate
                     (checkUrlSubstringFrom nextNode (treeChar # s) currentRule request noResult) x2
              else Continue x2"
    from a x2 have a2: "?a = Continue x2" by simp
    have b: "?b = resolve B x2"
      using "4.IH"(2)[OF a2] by (simp add: B_def accumulate_outcome resolve_Nil)
    show ?thesis
    proof (cases "resolve B x2")
      case (Return e)
      with a2 b x2 show ?thesis
        by (simp add: childrenLoop.simps w resolve_append)
    next
      case x2a: (Continue x2a)
      from b x2a have b2: "?b = Continue x2a" by simp
      have c: "(if nodeValue nextNode = treeChar
                then checkUrlSubstringFrom nextNode s (currentRule @ [treeChar]) request x2a
                else childrenLoop nodes treeChar s currentRule request x2a)
               = outcome (resolve C x2a)"
        using "4.IH"(3)[OF a2 b2] "4.IH"(4)[OF a2 b2] by (simp add: C_def)
      from a2 b2 c x2 x2a show ?thesis
        by (simp add: childrenLoop.simps w resolve_append)
    qed
  qed
next
  case (5 nextNode skipped currentRule request result)
  show ?case by (simp add: wildcardLoop.simps walkWildcard.simps resolve_Nil)
next
  case (6 nextNode skipped c s currentRule request result)
  then show ?case
    by (simp add: wildcardLoop.simps walkWildcard.simps resolve_append accumulate_outcome
        split: Flow.split)
qed


lemma checkUrlFrom_resolve:
  "checkUrlFrom root request s res = outcome (resolve (walkUrl root request s) res)"
  by (induction s arbitrary: res)
    (simp_all add: resolve_Nil resolve_append checkUrlSubstring_def walk_resolve(1)
      accumulate_outcome split: Flow.split)

lemma checkRuleMatch_kinds:
  "checkRuleMatch r cur request = noResult \<or> checkRuleMatch r cur request = matchResult r"
  by (simp add: checkRuleMatch_def)

lemma matchResult_kind:
  "isExceptionResult (matchResult r) = ruleIsException r
   \<and> isBlocked (matchResult r) = (\<not> ruleIsException r)
   \<and> isException (matchResult r) = ruleIsException r"
  by (simp add: matchResult_def isExceptionResult_def noResult_def)

text \<open>
  C2: for every trie of a loaded profile and every request, \<open>checkUrl\<close> returns one result,
  the verdict on the evaluations of the walk: if any rule evaluated in the walk matches and
  is an exception rule, the first such exception is the result, with \<open>isException\<close> set and
  \<open>isBlocked\<close> not set, and nothing after it counts; otherwise the most recent block is the
  result; otherwise the empty result. Every evaluation is the empty result or the result of
  its rule, which is an exception for an exception rule and a block for any other.
\<close>

theorem checkUrl_precedence:
  "checkUrl root request = verdict (walkUrl root request (requestUrl request))
   \<and> (find isExceptionResult (walkUrl root request (requestUrl request)) = Some e \<longrightarrow>
        checkUrl root request = e \<and> isException e \<and> \<not> isBlocked e)
   \<and> (find isExceptionResult (walkUrl root request (requestUrl request)) = None
      \<and> find isBlocked (rev (walkUrl root request (requestUrl request))) = Some b \<longrightarrow>
        checkUrl root request = b \<and> isBlocked b)
   \<and> (find isExceptionResult (walkUrl root request (requestUrl request)) = None
      \<and> find isBlocked (rev (walkUrl root request (requestUrl request))) = None \<longrightarrow>
        checkUrl root request = noResult)
   \<and> (checkRuleMatch r cur request = noResult \<or> checkRuleMatch r cur request = matchResult r)
   \<and> isExceptionResult (matchResult r) = ruleIsException r
   \<and> isBlocked (matchResult r) = (\<not> ruleIsException r)"
proof -
  have v: "checkUrl root request = verdict (walkUrl root request (requestUrl request))"
    by (simp add: checkUrl_def checkUrlFrom_resolve resolve_def verdict_def split: option.split)
  have e: "isException e \<and> \<not> isBlocked e"
    if "find isExceptionResult (walkUrl root request (requestUrl request)) = Some e"
    using that by (auto simp: find_Some_iff isExceptionResult_def)
  have b: "isBlocked b"
    if "find isBlocked (rev (walkUrl root request (requestUrl request))) = Some b"
    using that by (auto simp: find_Some_iff)
  from v e b checkRuleMatch_kinds[of r cur request] matchResult_kind[of r] show ?thesis
    by (simp add: verdict_def)
qed

theorem checkUrl_precedence_witness:
  "find isExceptionResult (walkUrl adsTrie (adsRequest ''http://ads.example.com/ok/pixel'')
       (requestUrl (adsRequest ''http://ads.example.com/ok/pixel'')))
     = Some (noResult\<lparr>resultRule := ''@@||ads.example.com/ok^'', isException := True\<rparr>)
   \<and> checkUrl adsTrie (adsRequest ''http://ads.example.com/ok/pixel'')
       = noResult\<lparr>resultRule := ''@@||ads.example.com/ok^'', isException := True\<rparr>
   \<and> find isExceptionResult (walkUrl adsTrie (adsRequest ''http://ads.example.com/banner.gif'')
       (requestUrl (adsRequest ''http://ads.example.com/banner.gif''))) = None
   \<and> find isBlocked (rev (walkUrl adsTrie (adsRequest ''http://ads.example.com/banner.gif'')
       (requestUrl (adsRequest ''http://ads.example.com/banner.gif''))))
     = Some (noResult\<lparr>resultRule := ''||ads.example.com^'', isBlocked := True\<rparr>)
   \<and> checkUrl adsTrie (adsRequest ''http://ads.example.com/banner.gif'')
       = noResult\<lparr>resultRule := ''||ads.example.com^'', isBlocked := True\<rparr>
   \<and> find isExceptionResult (walkUrl adsTrie (adsRequest ''http://x.test/a'')
       (requestUrl (adsRequest ''http://x.test/a''))) = None
   \<and> find isBlocked (rev (walkUrl adsTrie (adsRequest ''http://x.test/a'')
       (requestUrl (adsRequest ''http://x.test/a'')))) = None
   \<and> checkUrl adsTrie (adsRequest ''http://x.test/a'') = noResult"
proof -
  have e: "find isExceptionResult (walkUrl adsTrie (adsRequest ''http://ads.example.com/ok/pixel'')
       (requestUrl (adsRequest ''http://ads.example.com/ok/pixel'')))
     = Some (noResult\<lparr>resultRule := ''@@||ads.example.com/ok^'', isException := True\<rparr>)"
    by code_simp
  have b: "find isExceptionResult (walkUrl adsTrie (adsRequest ''http://ads.example.com/banner.gif'')
       (requestUrl (adsRequest ''http://ads.example.com/banner.gif''))) = None
     \<and> find isBlocked (rev (walkUrl adsTrie (adsRequest ''http://ads.example.com/banner.gif'')
       (requestUrl (adsRequest ''http://ads.example.com/banner.gif''))))
       = Some (noResult\<lparr>resultRule := ''||ads.example.com^'', isBlocked := True\<rparr>)"
    by code_simp
  have p: "find isExceptionResult (walkUrl adsTrie (adsRequest ''http://x.test/a'')
       (requestUrl (adsRequest ''http://x.test/a''))) = None
     \<and> find isBlocked (rev (walkUrl adsTrie (adsRequest ''http://x.test/a'')
       (requestUrl (adsRequest ''http://x.test/a'')))) = None"
    by code_simp
  from checkUrl_precedence[of adsTrie "adsRequest ''http://ads.example.com/ok/pixel''"
      "noResult\<lparr>resultRule := ''@@||ads.example.com/ok^'', isException := True\<rparr>"] e
  have 1: "checkUrl adsTrie (adsRequest ''http://ads.example.com/ok/pixel'')
       = noResult\<lparr>resultRule := ''@@||ads.example.com/ok^'', isException := True\<rparr>"
    by blast
  from checkUrl_precedence[of adsTrie "adsRequest ''http://ads.example.com/banner.gif''" _
      "noResult\<lparr>resultRule := ''||ads.example.com^'', isBlocked := True\<rparr>"] b
  have 2: "checkUrl adsTrie (adsRequest ''http://ads.example.com/banner.gif'')
       = noResult\<lparr>resultRule := ''||ads.example.com^'', isBlocked := True\<rparr>"
    by blast
  from checkUrl_precedence[of adsTrie "adsRequest ''http://x.test/a''"] p
  have 3: "checkUrl adsTrie (adsRequest ''http://x.test/a'') = noResult"
    by blast
  from e b p 1 2 3 show ?thesis by blast
qed

subsection \<open>A substring rule blocks the URLs that contain its pattern\<close>

text \<open>
  The insertion of a rule into any trie: the walk of the new trie comes to the evaluation of
  the new rule at the end of its pattern, and every evaluation of the walk of the new trie
  is one of the walk of the old trie or one of the new rule.
\<close>

lemma nodeValue_insertRule: "nodeValue (insertRule node p d) = nodeValue node"
  by (cases p) (simp_all split: option.split)

lemma findChild_Some:
  "findChild cs v k = Some j \<Longrightarrow>
     k \<le> j \<and> j - k < length cs \<and> nodeValue (cs ! (j - k)) = v
     \<and> (\<forall>n \<in> set (take (j - k) cs). nodeValue n \<noteq> v)"
proof (induction cs arbitrary: k)
  case Nil
  then show ?case by simp
next
  case (Cons c cs)
  show ?case
  proof (cases "nodeValue c = v")
    case True
    with Cons.prems show ?thesis by simp
  next
    case False
    with Cons.prems have f: "findChild cs v (Suc k) = Some j" by simp
    from Cons.IH[OF f] have i: "Suc k \<le> j" "j - Suc k < length cs"
      "nodeValue (cs ! (j - Suc k)) = v"
      "\<forall>n \<in> set (take (j - Suc k) cs). nodeValue n \<noteq> v" by auto
    from i(1) have e: "j - k = Suc (j - Suc k)" by simp
    from i False show ?thesis unfolding e by auto
  qed
qed

lemma findChild_None: "findChild cs v k = None \<Longrightarrow> \<forall>n \<in> set cs. nodeValue n \<noteq> v"
  by (induction cs arbitrary: k) (auto split: if_split_asm)

text \<open>The children of a node after an insertion below it.\<close>

lemma children_insertRule:
  obtains pre c post where "children node = pre @ c # post"
      and "children (insertRule node (v # line) d) = pre @ insertRule c line d # post"
      and "nodeValue c = v" and "\<forall>n \<in> set pre. nodeValue n \<noteq> v"
  | "findChild (children node) v 0 = None"
      and "children (insertRule node (v # line) d)
            = (if v = CHR ''^'' then insertRule (newNode v) line d # children node
               else children node @ [insertRule (newNode v) line d])"
      and "\<forall>n \<in> set (children node). nodeValue n \<noteq> v"
proof (cases "findChild (children node) v 0")
  case None
  from findChild_None[OF None] None show ?thesis
    by (intro that(2)) simp_all
next
  case (Some j)
  from findChild_Some[OF Some] have j: "j < length (children node)"
    "nodeValue (children node ! j) = v"
    "\<forall>n \<in> set (take j (children node)). nodeValue n \<noteq> v" by auto
  show ?thesis
  proof (rule that(1))
    show "children node = take j (children node) @ (children node ! j) # drop (Suc j) (children node)"
      using j(1) by (simp add: id_take_nth_drop)
    show "children (insertRule node (v # line) d)
       = take j (children node) @ insertRule (children node ! j) line d # drop (Suc j) (children node)"
      using j(1) Some by (simp add: upd_conv_take_nth_drop)
  qed (use j in auto)
qed

lemma walkChildren_reaches:
  "nodeValue c = v \<Longrightarrow> \<forall>n \<in> set pre. nodeValue n \<noteq> v \<Longrightarrow>
   set (walkSubstring c s (cur @ [v]) request)
     \<subseteq> set (walkChildren (pre @ c # post) v s cur request)"
  by (induction pre) (auto simp: walkChildren.simps)

lemma walk_insertRule_reaches:
  "checkRuleMatch d (cur @ p) request
     \<in> set (walkSubstring (insertRule node p d) (p @ t) cur request)"
proof (induction p arbitrary: node cur)
  case Nil
  show ?case by (cases t) (simp_all add: walkSubstring.simps evaluations_def)
next
  case (Cons v line)
  let ?x = "checkRuleMatch d (cur @ v # line) request"
  have x: "\<And>c. ?x \<in> set (walkSubstring (insertRule c line d) (line @ t) (cur @ [v]) request)"
    using Cons.IH[of "cur @ [v]"] by simp
  have "?x \<in> set (walkChildren (children (insertRule node (v # line) d)) v (line @ t) cur request)"
  proof (cases rule: children_insertRule[of node v line d])
    case (1 pre c post)
    from walkChildren_reaches[of "insertRule c line d" v pre "line @ t" cur request post]
      1 x[of c] show ?thesis
      by (auto simp: nodeValue_insertRule)
  next
    case 2
    show ?thesis
    proof (cases "v = CHR ''^''")
      case True
      from walkChildren_reaches[of "insertRule (newNode v) line d" v "[]" "line @ t" cur request
          "children node"] x[of "newNode v"] 2 True
      show ?thesis by (auto simp: nodeValue_insertRule newNode_def)
    next
      case False
      from walkChildren_reaches[of "insertRule (newNode v) line d" v "children node" "line @ t"
          cur request "[]"] x[of "newNode v"] 2 False
      show ?thesis by (auto simp: nodeValue_insertRule newNode_def)
    qed
  qed
  then show ?case by (simp add: walkSubstring.simps)
qed

lemma walkUrl_slice:
  "suffix t url \<Longrightarrow> t \<noteq> [] \<Longrightarrow>
   set (walkSubstring root t [] request) \<subseteq> set (walkUrl root request url)"
  by (induction url) (auto simp: suffix_Cons)

lemma walkSubstring_newNode: "walkSubstring (newNode v) s cur request = []"
  by (cases s) (simp_all add: walkSubstring.simps walkChildren.simps evaluations_def newNode_def)

lemma walkUrl_newNode: "walkUrl (newNode v) request s = []"
  by (induction s) (simp_all add: walkSubstring_newNode)

lemma walkChildren_replaced:
  assumes "nodeValue c' = nodeValue c" and "nodeValue c \<noteq> CHR ''*''" and "nodeValue c \<noteq> CHR ''^''"
    and "\<And>s cur. set (walkSubstring c' s cur request) \<subseteq> set (walkSubstring c s cur request) \<union> D"
  shows "set (walkChildren (pre @ c' # post) t s cur request)
           \<subseteq> set (walkChildren (pre @ c # post) t s cur request) \<union> D"
proof (induction pre)
  case Nil
  from assms(4)[of s "cur @ [t]"] assms(1-3) show ?case
    by (auto simp: walkChildren.simps)
next
  case (Cons n pre)
  then show ?case by (auto simp: walkChildren.simps)
qed

lemma walkChildren_appended:
  assumes "nodeValue c' \<noteq> CHR ''*''" and "nodeValue c' \<noteq> CHR ''^''"
    and "\<And>s cur. set (walkSubstring c' s cur request) \<subseteq> D"
  shows "set (walkChildren (cs @ [c']) t s cur request)
           \<subseteq> set (walkChildren cs t s cur request) \<union> D"
proof (induction cs)
  case Nil
  from assms(3)[of s "cur @ [t]"] assms(1,2) show ?case
    by (auto simp: walkChildren.simps)
next
  case (Cons n cs)
  then show ?case by (auto simp: walkChildren.simps)
qed

lemma walk_insertRule_subset:
  assumes "CHR ''*'' \<notin> set p" and "CHR ''^'' \<notin> set p"
  shows "set (walkSubstring (insertRule node p d) s cur request)
           \<subseteq> set (walkSubstring node s cur request) \<union> range (\<lambda>c. checkRuleMatch d c request)"
  using assms
proof (induction p arbitrary: node s cur)
  case Nil
  show ?case
    by (cases s) (auto simp: walkSubstring.simps evaluations_def)
next
  case (Cons v line)
  then have v: "v \<noteq> CHR ''*''" "v \<noteq> CHR ''^''"
    and l: "CHR ''*'' \<notin> set line" "CHR ''^'' \<notin> set line" by auto
  note IH = Cons.IH[OF l]
  let ?D = "range (\<lambda>c. checkRuleMatch d c request)"
  have r: "rules (insertRule node (v # line) d) = rules node"
    by (simp split: option.split)
  show ?case
  proof (cases s)
    case Nil
    then show ?thesis
      by (auto simp: walkSubstring.simps evaluations_def r simp del: insertRule.simps
          split: if_split_asm)
  next
    case s: (Cons t s')
    have "set (walkChildren (children (insertRule node (v # line) d)) t s' cur request)
            \<subseteq> set (walkChildren (children node) t s' cur request) \<union> ?D"
    proof (cases rule: children_insertRule[of node v line d])
      case (1 pre c post)
      from walkChildren_replaced[of "insertRule c line d" c request ?D pre post t s' cur]
        IH[of c] 1 v show ?thesis
        by (simp add: nodeValue_insertRule)
    next
      case 2
      have "\<And>s cur. set (walkSubstring (insertRule (newNode v) line d) s cur request) \<subseteq> ?D"
        using IH[of "newNode v"] by (simp add: walkSubstring_newNode)
      from walkChildren_appended[of "insertRule (newNode v) line d" request ?D "children node"
          t s' cur, OF _ _ this] 2 v
      show ?thesis by (simp add: nodeValue_insertRule newNode_def)
    qed
    then show ?thesis unfolding s
      by (auto simp: walkSubstring.simps evaluations_def r simp del: insertRule.simps)
  qed
qed

lemma walkUrl_insertRule_subset:
  assumes "CHR ''*'' \<notin> set p" and "CHR ''^'' \<notin> set p"
  shows "set (walkUrl (insertRule root p d) request url)
           \<subseteq> set (walkUrl root request url) \<union> range (\<lambda>c. checkRuleMatch d c request)"
proof (induction url)
  case Nil
  then show ?case by simp
next
  case (Cons c url)
  from walk_insertRule_subset[OF assms, of root d "c # url" "[]" request] Cons show ?case
    by auto
qed

lemma checkUrl_verdict:
  "checkUrl root request = verdict (walkUrl root request (requestUrl request))"
  by (simp add: checkUrl_def checkUrlFrom_resolve resolve_def verdict_def split: option.split)

lemma find_Some_set: "find P xs = Some x \<Longrightarrow> x \<in> set xs \<and> P x"
  by (induction xs) (auto split: if_split_asm)

lemma verdict_no_exception:
  assumes "\<not> isExceptionResult (verdict W)"
  shows "\<forall>x \<in> set W. \<not> isExceptionResult x"
proof (cases "find isExceptionResult W")
  case None
  then show ?thesis by (simp add: find_None_iff)
next
  case (Some e)
  then have "isExceptionResult e" by (auto simp: find_Some_iff)
  with Some assms show ?thesis by (simp add: verdict_def)
qed

lemma verdict_noResult:
  assumes "verdict W = noResult"
  shows "\<forall>x \<in> set W. \<not> isExceptionResult x \<and> \<not> isBlocked x"
proof -
  from assms have "\<not> isExceptionResult (verdict W)"
    by (simp add: isExceptionResult_def noResult_def)
  then have n: "\<forall>x \<in> set W. \<not> isExceptionResult x" by (rule verdict_no_exception)
  then have f: "find isExceptionResult W = None" by (simp add: find_None_iff)
  have "find isBlocked (rev W) = None"
  proof (cases "find isBlocked (rev W)")
    case None
    then show ?thesis .
  next
    case (Some b)
    then have "isBlocked b" by (auto simp: find_Some_iff)
    with Some f assms show ?thesis by (simp add: verdict_def noResult_def)
  qed
  then have "\<forall>x \<in> set W. \<not> isBlocked x" by (simp add: find_None_iff)
  with n show ?thesis by blast
qed

lemma verdict_block:
  assumes "\<forall>x \<in> set W. \<not> isExceptionResult x" and "b \<in> set W" and "isBlocked b"
  shows "verdict W \<in> set W \<and> isBlocked (verdict W)"
proof -
  from assms(1) have f: "find isExceptionResult W = None" by (simp add: find_None_iff)
  from assms(2,3) obtain b' where b: "find isBlocked (rev W) = Some b'"
    by (cases "find isBlocked (rev W)") (auto simp: find_None_iff)
  from find_Some_set[OF b] f b show ?thesis by (simp add: verdict_def)
qed

lemma parseRuleLine_insert:
  assumes "isNetworkRuleLine raw" and "parseNetworkRule w raw = Some (p, d)"
  shows "m_root (parseRuleLine mode w raw profile) = insertRule (m_root profile) p d"
proof -
  from assms(1) have "\<not> startsWith raw ''##''"
    by (auto simp: isNetworkRuleLine_def startsWith_def contains_def prefix_imp_sublist)
  with assms show ?thesis
    by (simp add: parseRuleLine_def isNetworkRuleLine_def)
qed

lemma checkUrl_emptyFilters: "checkUrl (m_root emptyFilters) request = noResult"
  by (simp add: checkUrl_verdict emptyFilters_def walkUrl_newNode verdict_def)

lemma inserted_rule_blocks:
  assumes "isNetworkRuleLine raw" and "parseNetworkRule w raw = Some (p, d)"
    and "CHR ''*'' \<notin> set p" and "CHR ''^'' \<notin> set p" and "isPlainRule d"
    and "contains (requestUrl request) p" and "requestUrl request \<noteq> []"
    and "resourceType request \<noteq> PopupType"
    and "\<not> isExceptionResult (checkUrl (m_root profile) request)"
  shows "isBlocked (checkUrl (m_root (parseRuleLine mode w raw profile)) request)"
    and "checkUrl (m_root profile) request = noResult \<Longrightarrow>
           resultRule (checkUrl (m_root (parseRuleLine mode w raw profile)) request) = raw"
proof -
  define W where "W = walkUrl (m_root profile) request (requestUrl request)"
  define W' where "W' = walkUrl (insertRule (m_root profile) p d) request (requestUrl request)"
  define B where "B = noResult\<lparr>resultRule := raw, isBlocked := True\<rparr>"
  from assms(5) have e: "\<not> ruleIsException d" by (simp add: isPlainRule_def)
  have m: "matchResult d = B"
    unfolding B_def by (simp add: matchResult_block[OF e] parseNetworkRule_rule[OF assms(2)])
  have n: "\<not> isExceptionResult noResult" "\<not> isBlocked noResult"
    "\<not> isExceptionResult B" "isBlocked B" "resultRule B = raw"
    unfolding B_def by (simp_all add: isExceptionResult_def noResult_def)
  have D1: "\<not> isExceptionResult (checkRuleMatch d c request)" for c
    using n(1,3) by (simp add: checkRuleMatch_block[OF e] m)
  have D2: "checkRuleMatch d c request = B" if "isBlocked (checkRuleMatch d c request)" for c
    using that n(2) by (simp add: checkRuleMatch_block[OF e] m split: if_split_asm)
  from assms(6,7) obtain t where t: "t \<noteq> []" "suffix t (requestUrl request)" "prefix p t"
    using sublist_iff_suffix_prefix[of "requestUrl request" p] by (auto simp: contains_def)
  from t(3) obtain t' where t': "t = p @ t'" by (auto simp: prefix_def)
  from assms(6,8) have b: "blocks d request p"
    by (simp add: blocks_plain[OF assms(5)])
  have c: "checkRuleMatch d p request = B"
    by (simp add: checkRuleMatch_block[OF e] b m)
  have "checkRuleMatch d ([] @ p) request
          \<in> set (walkSubstring (insertRule (m_root profile) p d) (p @ t') [] request)"
    by (rule walk_insertRule_reaches)
  with c t' have "B \<in> set (walkSubstring (insertRule (m_root profile) p d) t [] request)"
    by simp
  with walkUrl_slice[OF t(2,1)] have B: "B \<in> set W'" unfolding W'_def by blast
  have sub: "set W' \<subseteq> set W \<union> range (\<lambda>c. checkRuleMatch d c request)"
    unfolding W_def W'_def by (rule walkUrl_insertRule_subset[OF assms(3,4)])
  have cases: "x \<in> set W \<or> (\<exists>c. x = checkRuleMatch d c request)" if "x \<in> set W'" for x
    using that sub by blast
  from assms(9) have nW: "\<forall>x \<in> set W. \<not> isExceptionResult x"
    unfolding checkUrl_verdict W_def by (rule verdict_no_exception)
  have ne: "\<forall>x \<in> set W'. \<not> isExceptionResult x"
  proof
    fix x assume "x \<in> set W'"
    from cases[OF this] show "\<not> isExceptionResult x"
    proof
      assume "x \<in> set W"
      with nW show ?thesis by simp
    next
      assume "\<exists>c. x = checkRuleMatch d c request"
      then obtain c where "x = checkRuleMatch d c request" ..
      with D1[of c] show ?thesis by simp
    qed
  qed
  have vb: "verdict W' \<in> set W' \<and> isBlocked (verdict W')"
    using ne B n(4) by (rule verdict_block)
  have r: "m_root (parseRuleLine mode w raw profile) = insertRule (m_root profile) p d"
    using assms(1,2) by (rule parseRuleLine_insert)
  have u: "checkUrl (m_root (parseRuleLine mode w raw profile)) request = verdict W'"
    unfolding r checkUrl_verdict W'_def ..
  from vb show "isBlocked (checkUrl (m_root (parseRuleLine mode w raw profile)) request)"
    unfolding u by simp
  assume "checkUrl (m_root profile) request = noResult"
  then have "verdict W = noResult" unfolding checkUrl_verdict W_def .
  then have q: "\<forall>x \<in> set W. \<not> isExceptionResult x \<and> \<not> isBlocked x"
    by (rule verdict_noResult)
  from vb have "verdict W' \<in> set W'" ..
  from cases[OF this] have "verdict W' = B"
  proof
    assume "verdict W' \<in> set W"
    with q have "\<not> isBlocked (verdict W')" by simp
    with vb show ?thesis by simp
  next
    assume "\<exists>c. verdict W' = checkRuleMatch d c request"
    then obtain c where x: "verdict W' = checkRuleMatch d c request" ..
    with vb have "isBlocked (checkRuleMatch d c request)" by simp
    from D2[OF this] x show ?thesis by simp
  qed
  with n(5) show "resultRule (checkUrl (m_root (parseRuleLine mode w raw profile)) request) = raw"
    unfolding u by simp
qed

text \<open>
  C1, as the claim states it, fails in three ways. For the empty URL: the line \<open>*\<close> is a
  network rule whose pattern is empty after the \<open>*\<close> is taken off, the empty URL contains
  that pattern, and \<open>checkUrl\<close>, whose loop runs once for every character of the URL, does
  not block. For a trie that holds another rule: after \<open>ad\<close> is inserted into the trie of
  the rule \<open>ads\<close>, the request of \<open>http://x.test/ads\<close> is blocked with the rule \<open>ads\<close>, the
  most recent block of the walk, and not with the raw line \<open>ad\<close>. For a trie that holds an
  exception: after \<open>ad\<close> is inserted into the trie of the rule \<open>@@ad\<close>, the same request is
  not blocked.
\<close>

theorem substring_rule_counterexample:
  "isNetworkRuleLine ''*''
   \<and> parseNetworkRule True ''*'' = Some ([], newRule\<lparr>rule := ''*''\<rparr>)
   \<and> isPlainRule (newRule\<lparr>rule := ''*''\<rparr>)
   \<and> contains (requestUrl emptyUrlRequest) []
   \<and> resourceType emptyUrlRequest \<noteq> PopupType
   \<and> \<not> isBlocked (checkUrl (m_root (parseRuleLine AllFilters True ''*'' emptyFilters))
          emptyUrlRequest)
   \<and> isNetworkRuleLine ''ad''
   \<and> parseNetworkRule True ''ad'' = Some (''ad'', newRule\<lparr>rule := ''ad''\<rparr>)
   \<and> CHR ''*'' \<notin> set ''ad'' \<and> CHR ''^'' \<notin> set ''ad''
   \<and> isPlainRule (newRule\<lparr>rule := ''ad''\<rparr>)
   \<and> contains (requestUrl adsPath) ''ad'' \<and> requestUrl adsPath \<noteq> []
   \<and> resourceType adsPath \<noteq> PopupType
   \<and> resultRule (checkUrl (m_root (parseRuleLine AllFilters True ''ad''
          (parseRuleLine AllFilters True ''ads'' emptyFilters))) adsPath) = ''ads''
   \<and> \<not> isBlocked (checkUrl (m_root (parseRuleLine AllFilters True ''ad''
          (parseRuleLine AllFilters True ''@@ad'' emptyFilters))) adsPath)"
  by code_simp

text \<open>
  C1, amended: for every network-rule line whose residual pattern \<open>p\<close> contains no \<open>*\<close> and no
  \<open>^\<close> and that parses as a non-exception substring rule with no anchors, no options and
  empty domain lists, for every trie, whatever rules it holds, and for every request whose
  URL is not empty and contains \<open>p\<close> and whose resource type is not Popup: after
  \<open>parseRuleLine\<close> has inserted the line into the trie, \<open>checkUrl\<close> returns a result with
  \<open>isBlocked\<close> set whenever \<open>checkUrl\<close> on the trie before the insertion did not return an
  exception for the request; and it returns a result with \<open>isBlocked\<close> set and with the raw
  line as its rule whenever \<open>checkUrl\<close> on the trie before the insertion let the request
  pass, as the empty trie does.
\<close>

theorem substring_rule_blocks:
  assumes "isNetworkRuleLine raw" and "parseNetworkRule w raw = Some (p, d)"
    and "CHR ''*'' \<notin> set p" and "CHR ''^'' \<notin> set p" and "isPlainRule d"
    and "contains (requestUrl request) p" and "requestUrl request \<noteq> []"
    and "resourceType request \<noteq> PopupType"
  shows "(\<not> isExceptionResult (checkUrl (m_root profile) request) \<longrightarrow>
            isBlocked (checkUrl (m_root (parseRuleLine mode w raw profile)) request))
         \<and> (checkUrl (m_root profile) request = noResult \<longrightarrow>
            isBlocked (checkUrl (m_root (parseRuleLine mode w raw profile)) request)
            \<and> resultRule (checkUrl (m_root (parseRuleLine mode w raw profile)) request) = raw)
         \<and> isBlocked (checkUrl (m_root (parseRuleLine mode w raw emptyFilters)) request)
         \<and> resultRule (checkUrl (m_root (parseRuleLine mode w raw emptyFilters)) request) = raw"
proof -
  have n: "\<not> isExceptionResult noResult"
    by (simp add: isExceptionResult_def noResult_def)
  have a: "isBlocked (checkUrl (m_root (parseRuleLine mode w raw f)) request)"
    if "\<not> isExceptionResult (checkUrl (m_root f) request)" for f
    using assms that by (rule inserted_rule_blocks(1))
  have b: "resultRule (checkUrl (m_root (parseRuleLine mode w raw f)) request) = raw"
    if "checkUrl (m_root f) request = noResult" for f
  proof -
    from that n have "\<not> isExceptionResult (checkUrl (m_root f) request)" by simp
    with assms show ?thesis using that by (rule inserted_rule_blocks(2))
  qed
  have c: "isBlocked (checkUrl (m_root (parseRuleLine mode w raw f)) request)"
    if "checkUrl (m_root f) request = noResult" for f
    using that n by (intro a) simp
  have e: "checkUrl (m_root emptyFilters) request = noResult"
    by (rule checkUrl_emptyFilters)
  from a[of profile] b[of profile] c[of profile] b[OF e] c[OF e] show ?thesis by blast
qed

theorem substring_rule_blocks_witness:
  "isNetworkRuleLine ''/banner/''
   \<and> parseNetworkRule True ''/banner/'' = Some (''/banner/'', newRule\<lparr>rule := ''/banner/''\<rparr>)
   \<and> CHR ''*'' \<notin> set ''/banner/'' \<and> CHR ''^'' \<notin> set ''/banner/''
   \<and> isPlainRule (newRule\<lparr>rule := ''/banner/''\<rparr>)
   \<and> contains (requestUrl bannerRequest) ''/banner/'' \<and> requestUrl bannerRequest \<noteq> []
   \<and> resourceType bannerRequest \<noteq> PopupType
   \<and> checkUrl (m_root adsFilters) bannerRequest = noResult
   \<and> \<not> isExceptionResult (checkUrl (m_root adsFilters) bannerRequest)
   \<and> isBlocked (checkUrl (m_root (parseRuleLine AllFilters True ''/banner/'' adsFilters))
        bannerRequest)
   \<and> resultRule (checkUrl (m_root (parseRuleLine AllFilters True ''/banner/'' adsFilters))
        bannerRequest) = ''/banner/''
   \<and> isBlocked (checkUrl (m_root (parseRuleLine AllFilters True ''/banner/'' emptyFilters))
        bannerRequest)
   \<and> resultRule (checkUrl (m_root (parseRuleLine AllFilters True ''/banner/'' emptyFilters))
        bannerRequest) = ''/banner/''"
proof -
  have h: "isNetworkRuleLine ''/banner/''"
    "parseNetworkRule True ''/banner/'' = Some (''/banner/'', newRule\<lparr>rule := ''/banner/''\<rparr>)"
    "CHR ''*'' \<notin> set ''/banner/''" "CHR ''^'' \<notin> set ''/banner/''"
    "isPlainRule (newRule\<lparr>rule := ''/banner/''\<rparr>)"
    "contains (requestUrl bannerRequest) ''/banner/''" "requestUrl bannerRequest \<noteq> []"
    "resourceType bannerRequest \<noteq> PopupType"
    by code_simp+
  have g: "checkUrl (m_root adsFilters) bannerRequest = noResult"
    by code_simp
  have n: "\<not> isExceptionResult noResult"
    by (simp add: isExceptionResult_def noResult_def)
  from substring_rule_blocks[OF h, of adsFilters AllFilters] h g n show ?thesis by simp
qed

end
